theory Spec2Isabelle
  imports Complex_Main "HOL-Library.Word"
begin

section \<open>Rasters\<close>

text \<open>
  An \<open>ImageData\<close> object: a \<open>Uint8ClampedArray\<close> of interleaved RGBA bytes in
  row-major order together with its width and height.  The buffer is kept inside the
  object: every \<open>ImageData\<close> of the program owns its own array (it comes from
  \<open>getImageData\<close> or from \<open>new ImageData(new Uint8ClampedArray(...), w, h)\<close>).
\<close>

type_synonym byte = "8 word"

record ImageData =
  data :: "byte list"
  width :: nat
  height :: nat

text \<open>
  Objects live in a store and are named by references, so that two references to equal
  pixels can still be told apart from two references to the same object.  Allocation
  appends to the store; a reference outside the store stands for \<open>null\<close>.
\<close>

type_synonym ref = nat
type_synonym store = "ImageData list"

text \<open>
  The exceptions that occur: a \<open>TypeError\<close> (a field of \<open>null\<close> or \<open>undefined\<close>),
  the \<open>IndexSizeError\<close> of \<open>getImageData\<close> on an empty rectangle, and the
  \<open>Error('No image data available')\<close> of \<open>applyMosaic\<close>.
\<close>

datatype js_error = TypeError | IndexSizeError | NoImageData

section \<open>ImageProcessor: the mosaic\<close>

text \<open>
  The accumulators \<open>r\<close>, \<open>g\<close>, \<open>b\<close> and the averages are JavaScript numbers.  The
  values that occur are sums of bytes (exact in a double), their rounded quotients,
  \<open>NaN\<close> (a read outside the array gives \<open>undefined\<close>, and \<open>0 / 0\<close> is \<open>NaN\<close>) and
  \<open>Infinity\<close> (a positive sum divided by a zero count).
\<close>

datatype number = Num nat | Infinity | NaN

text \<open>\<open>data[index]\<close> as an operand of \<open>+=\<close>.\<close>

definition getIndex :: "byte list \<Rightarrow> nat \<Rightarrow> number" where
  "getIndex d i = (if i < length d then Num (unat (d ! i)) else NaN)"

fun add :: "number \<Rightarrow> number \<Rightarrow> number" where
  "add (Num a) (Num b) = Num (a + b)"
| "add NaN _ = NaN"
| "add _ NaN = NaN"
| "add Infinity _ = Infinity"
| "add _ Infinity = Infinity"

text \<open>
  \<open>Math.round(r / count)\<close>.  \<open>Math.round\<close> rounds to the nearest integer, a tie
  upwards.  For a sum \<open>s\<close> of bytes over \<open>count\<close> pixels the quotient is below 256 and,
  unless it is exactly half-way, at least \<open>1 / (2 * count)\<close> away from the half-way
  point, far more than the rounding error of the double division: the result is
  \<open>floor ((2 * s + count) / (2 * count))\<close>.
\<close>

fun roundDiv :: "number \<Rightarrow> nat \<Rightarrow> number" where
  "roundDiv (Num s) count =
     (if count = 0 then (if s = 0 then NaN else Infinity)
      else Num ((2 * s + count) div (2 * count)))"
| "roundDiv Infinity count = Infinity"
| "roundDiv NaN count = NaN"

text \<open>
  A store into a \<open>Uint8ClampedArray\<close>: the value is clamped to 0..255 (\<open>NaN\<close> becomes
  0), and a store outside the array is ignored.
\<close>

fun toUint8Clamped :: "number \<Rightarrow> byte" where
  "toUint8Clamped (Num n) = of_nat (min n 255)"
| "toUint8Clamped Infinity = 255"
| "toUint8Clamped NaN = 0"

definition setIndex :: "byte list \<Rightarrow> nat \<Rightarrow> number \<Rightarrow> byte list" where
  "setIndex d i v = (if i < length d then d[i := toUint8Clamped v] else d)"

text \<open>\<open>maskData[index] > 127\<close>: \<open>undefined > 127\<close> is false.\<close>

definition selected :: "byte list \<Rightarrow> nat \<Rightarrow> bool" where
  "selected maskData i = (i < length maskData \<and> unat (maskData ! i) > 127)"

subsection \<open>\<open>_calculateAverageColor\<close>\<close>

text \<open>
  The inner loop over \<open>x\<close> and the outer loop over \<open>y\<close>, on \<open>(r, g, b, count)\<close>.
  Here and below \<open>d\<close>, \<open>w\<close> and \<open>h\<close> are the source's \<open>data\<close>, \<open>width\<close> and
  \<open>height\<close>.
\<close>

function calculateAverageColor_x ::
  "byte list \<Rightarrow> nat \<Rightarrow> nat \<Rightarrow> nat \<Rightarrow> nat \<Rightarrow> number \<times> number \<times> number \<times> nat \<Rightarrow>
   number \<times> number \<times> number \<times> nat" where
  "calculateAverageColor_x d w y endX x (r, g, b, count) =
     (if x < endX
      then let index = (y * w + x) * 4
           in calculateAverageColor_x d w y endX (x + 1)
                (add r (getIndex d index), add g (getIndex d (index + 1)),
                 add b (getIndex d (index + 2)), count + 1)
      else (r, g, b, count))"
  by pat_completeness auto
termination
  by (relation "measure (\<lambda>(d, w, y, endX, x, acc). endX - x)") auto

function calculateAverageColor_y ::
  "byte list \<Rightarrow> nat \<Rightarrow> nat \<Rightarrow> nat \<Rightarrow> nat \<Rightarrow> nat \<Rightarrow> number \<times> number \<times> number \<times> nat \<Rightarrow>
   number \<times> number \<times> number \<times> nat" where
  "calculateAverageColor_y d w startX endX endY y acc =
     (if y < endY
      then calculateAverageColor_y d w startX endX endY (y + 1)
             (calculateAverageColor_x d w y endX startX acc)
      else acc)"
  by pat_completeness auto
termination
  by (relation "measure (\<lambda>(d, w, startX, endX, endY, y, acc). endY - y)") auto

definition calculateAverageColor ::
  "byte list \<Rightarrow> nat \<Rightarrow> nat \<Rightarrow> nat \<Rightarrow> nat \<Rightarrow> nat \<Rightarrow> number \<times> number \<times> number" where
  "calculateAverageColor d startX startY blockSize w h =
     (let endX = min (startX + blockSize) w;
          endY = min (startY + blockSize) h
      in case calculateAverageColor_y d w startX endX endY startY (Num 0, Num 0, Num 0, 0) of
           (r, g, b, count) \<Rightarrow> (roundDiv r count, roundDiv g count, roundDiv b count))"

subsection \<open>\<open>_fillBlock\<close>\<close>

function fillBlock_x ::
  "byte list \<Rightarrow> nat \<Rightarrow> nat \<Rightarrow> nat \<Rightarrow> nat \<Rightarrow> number \<times> number \<times> number \<Rightarrow> byte list" where
  "fillBlock_x d w y endX x (r, g, b) =
     (if x < endX
      then let index = (y * w + x) * 4
           in fillBlock_x
                (setIndex (setIndex (setIndex d index r) (index + 1) g) (index + 2) b)
                w y endX (x + 1) (r, g, b)
      else d)"
  by pat_completeness auto
termination
  by (relation "measure (\<lambda>(d, w, y, endX, x, color). endX - x)") auto

function fillBlock_y ::
  "byte list \<Rightarrow> nat \<Rightarrow> nat \<Rightarrow> nat \<Rightarrow> nat \<Rightarrow> nat \<Rightarrow> number \<times> number \<times> number \<Rightarrow> byte list" where
  "fillBlock_y d w startX endX endY y color =
     (if y < endY
      then fillBlock_y (fillBlock_x d w y endX startX color) w startX endX endY (y + 1) color
      else d)"
  by pat_completeness auto
termination
  by (relation "measure (\<lambda>(d, w, startX, endX, endY, y, color). endY - y)") auto

definition fillBlock ::
  "byte list \<Rightarrow> nat \<Rightarrow> nat \<Rightarrow> nat \<Rightarrow> nat \<Rightarrow> nat \<Rightarrow> number \<times> number \<times> number \<Rightarrow> byte list" where
  "fillBlock d startX startY blockSize w h color =
     (let endX = min (startX + blockSize) w;
          endY = min (startY + blockSize) h
      in fillBlock_y d w startX endX endY startY color)"

subsection \<open>\<open>_processMosaic\<close>\<close>

text \<open>
  The two outer loops step by \<open>blockSize\<close> and do not end when it is 0: they are
  partial functions, \<open>None\<close> standing for a run that does not return.  The array is
  changed in place; the functions return it.
\<close>

partial_function (option) processMosaic_x ::
  "nat \<Rightarrow> nat \<Rightarrow> nat \<Rightarrow> nat \<Rightarrow> byte list \<Rightarrow> nat \<Rightarrow> byte list option" where
  "processMosaic_x blockSize w h y d x =
     (if x < w
      then let avgColor = calculateAverageColor d x y blockSize w h
           in processMosaic_x blockSize w h y
                (fillBlock d x y blockSize w h avgColor) (x + blockSize)
      else Some d)"

partial_function (option) processMosaic_y ::
  "nat \<Rightarrow> nat \<Rightarrow> nat \<Rightarrow> byte list \<Rightarrow> nat \<Rightarrow> byte list option" where
  "processMosaic_y blockSize w h d y =
     (if y < h
      then Option.bind (processMosaic_x blockSize w h y d 0)
             (\<lambda>d'. processMosaic_y blockSize w h d' (y + blockSize))
      else Some d)"

declare processMosaic_x.simps [code] processMosaic_y.simps [code]

definition processMosaic :: "ImageData \<Rightarrow> nat \<Rightarrow> ImageData option" where
  "processMosaic imageData blockSize =
     map_option (\<lambda>d. imageData\<lparr>data := d\<rparr>)
       (processMosaic_y blockSize (width imageData) (height imageData) (data imageData) 0)"

subsection \<open>\<open>_hasSelectedPixels\<close>\<close>

function hasSelectedPixels_x :: "byte list \<Rightarrow> nat \<Rightarrow> nat \<Rightarrow> nat \<Rightarrow> nat \<Rightarrow> bool" where
  "hasSelectedPixels_x maskData w y endX x =
     (if x < endX
      then let index = (y * w + x) * 4
           in if selected maskData index then True
              else hasSelectedPixels_x maskData w y endX (x + 1)
      else False)"
  by pat_completeness auto
termination
  by (relation "measure (\<lambda>(maskData, w, y, endX, x). endX - x)") auto

function hasSelectedPixels_y :: "byte list \<Rightarrow> nat \<Rightarrow> nat \<Rightarrow> nat \<Rightarrow> nat \<Rightarrow> nat \<Rightarrow> bool" where
  "hasSelectedPixels_y maskData w startX endX endY y =
     (if y < endY
      then if hasSelectedPixels_x maskData w y endX startX then True
           else hasSelectedPixels_y maskData w startX endX endY (y + 1)
      else False)"
  by pat_completeness auto
termination
  by (relation "measure (\<lambda>(maskData, w, startX, endX, endY, y). endY - y)") auto

definition hasSelectedPixels :: "byte list \<Rightarrow> nat \<Rightarrow> nat \<Rightarrow> nat \<Rightarrow> nat \<Rightarrow> nat \<Rightarrow> bool" where
  "hasSelectedPixels maskData startX startY blockSize w h =
     (let endX = min (startX + blockSize) w;
          endY = min (startY + blockSize) h
      in hasSelectedPixels_y maskData w startX endX endY startY)"

subsection \<open>\<open>_fillBlockWithMask\<close>\<close>

function fillBlockWithMask_x ::
  "byte list \<Rightarrow> byte list \<Rightarrow> nat \<Rightarrow> nat \<Rightarrow> nat \<Rightarrow> nat \<Rightarrow> number \<times> number \<times> number \<Rightarrow>
   byte list" where
  "fillBlockWithMask_x d maskData w y endX x (r, g, b) =
     (if x < endX
      then let index = (y * w + x) * 4
           in fillBlockWithMask_x
                (if selected maskData index
                 then setIndex (setIndex (setIndex d index r) (index + 1) g) (index + 2) b
                 else d)
                maskData w y endX (x + 1) (r, g, b)
      else d)"
  by pat_completeness auto
termination
  by (relation "measure (\<lambda>(d, maskData, w, y, endX, x, color). endX - x)") auto

function fillBlockWithMask_y ::
  "byte list \<Rightarrow> byte list \<Rightarrow> nat \<Rightarrow> nat \<Rightarrow> nat \<Rightarrow> nat \<Rightarrow> nat \<Rightarrow> number \<times> number \<times> number \<Rightarrow>
   byte list" where
  "fillBlockWithMask_y d maskData w startX endX endY y color =
     (if y < endY
      then fillBlockWithMask_y (fillBlockWithMask_x d maskData w y endX startX color)
             maskData w startX endX endY (y + 1) color
      else d)"
  by pat_completeness auto
termination
  by (relation "measure (\<lambda>(d, maskData, w, startX, endX, endY, y, color). endY - y)") auto

definition fillBlockWithMask ::
  "byte list \<Rightarrow> byte list \<Rightarrow> nat \<Rightarrow> nat \<Rightarrow> nat \<Rightarrow> nat \<Rightarrow> nat \<Rightarrow> number \<times> number \<times> number \<Rightarrow>
   byte list" where
  "fillBlockWithMask d maskData startX startY blockSize w h color =
     (let endX = min (startX + blockSize) w;
          endY = min (startY + blockSize) h
      in fillBlockWithMask_y d maskData w startX endX endY startY color)"

subsection \<open>\<open>_processMosaicWithMask\<close>\<close>

text \<open>
  The mask is an \<open>ImageData\<close> of its own (\<open>createSelectionMask\<close> reads it from a new
  canvas) and is only read.
\<close>

partial_function (option) processMosaicWithMask_x ::
  "nat \<Rightarrow> nat \<Rightarrow> nat \<Rightarrow> byte list \<Rightarrow> nat \<Rightarrow> byte list \<Rightarrow> nat \<Rightarrow> byte list option" where
  "processMosaicWithMask_x blockSize w h maskData y d x =
     (if x < w
      then processMosaicWithMask_x blockSize w h maskData y
             (if hasSelectedPixels maskData x y blockSize w h
              then let avgColor = calculateAverageColor d x y blockSize w h
                   in fillBlockWithMask d maskData x y blockSize w h avgColor
              else d)
             (x + blockSize)
      else Some d)"

partial_function (option) processMosaicWithMask_y ::
  "nat \<Rightarrow> nat \<Rightarrow> nat \<Rightarrow> byte list \<Rightarrow> byte list \<Rightarrow> nat \<Rightarrow> byte list option" where
  "processMosaicWithMask_y blockSize w h maskData d y =
     (if y < h
      then Option.bind (processMosaicWithMask_x blockSize w h maskData y d 0)
             (\<lambda>d'. processMosaicWithMask_y blockSize w h maskData d' (y + blockSize))
      else Some d)"

declare processMosaicWithMask_x.simps [code] processMosaicWithMask_y.simps [code]

definition processMosaicWithMask :: "ImageData \<Rightarrow> nat \<Rightarrow> ImageData \<Rightarrow> ImageData option" where
  "processMosaicWithMask imageData blockSize selectionMask =
     map_option (\<lambda>d. imageData\<lparr>data := d\<rparr>)
       (processMosaicWithMask_y blockSize (width imageData) (height imageData)
          (data selectionMask) (data imageData) 0)"

subsection \<open>Tiles and their means\<close>

text \<open>
  The vocabulary of the statements about the mosaic.  Pixel \<open>(x, y)\<close> of a raster of
  width \<open>w\<close> occupies the four bytes from \<open>(y * w + x) * 4\<close>; conversely byte \<open>i\<close>
  belongs to channel \<open>i mod 4\<close> of the pixel in column \<open>(i div 4) mod w\<close> and row
  \<open>(i div 4) div w\<close>.  \<open>tileSum\<close> adds one channel over the pixels of the columns
  \<open>x0 ..< x1\<close> and rows \<open>y0 ..< y1\<close>; \<open>roundedMean s n\<close> is \<open>s / n\<close> rounded to the
  nearest integer, a tie upwards.
\<close>

definition tileSum :: "byte list \<Rightarrow> nat \<Rightarrow> nat \<Rightarrow> nat \<Rightarrow> nat \<Rightarrow> nat \<Rightarrow> nat \<Rightarrow> nat" where
  "tileSum d w x0 x1 y0 y1 c =
     (\<Sum>y\<leftarrow>[y0..<y1]. \<Sum>x\<leftarrow>[x0..<x1]. unat (d ! ((y * w + x) * 4 + c)))"

definition roundedMean :: "nat \<Rightarrow> nat \<Rightarrow> nat" where
  "roundedMean s n = (2 * s + n) div (2 * n)"

text \<open>
  The byte the mosaic computes for channel \<open>c\<close> of the tile with origin \<open>(tx, ty)\<close>:
  the tile is \<open>blockSize\<close> wide and high, cut off at the right and lower edge of the
  raster.
\<close>

definition tileByte :: "byte list \<Rightarrow> nat \<Rightarrow> nat \<Rightarrow> nat \<Rightarrow> nat \<Rightarrow> nat \<Rightarrow> nat \<Rightarrow> byte" where
  "tileByte d blockSize w h tx ty c =
     toUint8Clamped
       (roundDiv (Num (tileSum d w tx (min (tx + blockSize) w) ty (min (ty + blockSize) h) c))
          ((min (ty + blockSize) h - ty) * (min (tx + blockSize) w - tx)))"

definition inTile :: "nat \<Rightarrow> nat \<Rightarrow> nat \<Rightarrow> nat \<Rightarrow> nat \<Rightarrow> nat \<Rightarrow> bool" where
  "inTile w x0 x1 y0 y1 i =
     (x0 \<le> (i div 4) mod w \<and> (i div 4) mod w < x1 \<and>
      y0 \<le> (i div 4) div w \<and> (i div 4) div w < y1)"

text \<open>The component of a colour \<open>{r, g, b}\<close> that is stored at channel \<open>c\<close>.\<close>

definition channel :: "number \<times> number \<times> number \<Rightarrow> nat \<Rightarrow> number" where
  "channel color c =
     (case color of (r, g, b) \<Rightarrow> if c = 0 then r else if c = 1 then g else b)"

section \<open>HistoryManager\<close>

record HistoryEntry =
  imageData :: ref
  actionName :: string
  timestamp :: nat

record HistoryManager =
  history :: "HistoryEntry list"
  currentIndex :: int
  maxHistorySize :: nat

definition newHistoryManager :: "nat \<Rightarrow> HistoryManager" where
  "newHistoryManager maxSize =
     \<lparr>history = [], currentIndex = - 1, maxHistorySize = maxSize\<rparr>"

text \<open>\<open>xs.slice(0, e)\<close>: a negative end counts from the end of the array.\<close>

definition slice0 :: "'a list \<Rightarrow> int \<Rightarrow> 'a list" where
  "slice0 xs e =
     take (nat (if e < 0 then max (int (length xs) + e) 0 else min e (int (length xs)))) xs"

text \<open>\<open>xs[i]\<close> for an array: \<open>undefined\<close> (here \<open>None\<close>) outside the array.\<close>

definition at_index :: "'a list \<Rightarrow> int \<Rightarrow> 'a option" where
  "at_index xs i = (if 0 \<le> i \<and> i < int (length xs) then Some (xs ! nat i) else None)"

text \<open>
  \<open>cloneImageData\<close>: a new array with the bytes of the given one, wrapped in a new
  \<open>ImageData\<close> of the same width and height.  Reading a field of \<open>null\<close> throws.
\<close>

definition cloneImageData :: "store \<Rightarrow> ref \<Rightarrow> js_error + (store \<times> ref)" where
  "cloneImageData st r =
     (if r < length st
      then let cloned = \<lparr>data = data (st ! r), width = width (st ! r), height = height (st ! r)\<rparr>
           in Inr (st @ [cloned], length st)
      else Inl TypeError)"

text \<open>
  \<open>saveState\<close>; \<open>now\<close> is the value of \<open>Date.now()\<close>.  The body runs inside
  \<open>try\<close>/\<open>catch\<close>: an exception of the clone is logged and swallowed, after the redo
  branch has already been cut.
\<close>

definition saveState ::
  "store \<Rightarrow> HistoryManager \<Rightarrow> ref \<Rightarrow> string \<Rightarrow> nat \<Rightarrow> store \<times> HistoryManager" where
  "saveState st m img name now =
     (let m1 = (if currentIndex m < int (length (history m)) - 1
                then m\<lparr>history := slice0 (history m) (currentIndex m + 1)\<rparr> else m)
      in case cloneImageData st img of
           Inl e \<Rightarrow> (st, m1)
         | Inr (st', c) \<Rightarrow>
             let state = \<lparr>imageData = c, actionName = name, timestamp = now\<rparr>;
                 m2 = m1\<lparr>history := history m1 @ [state]\<rparr>;
                 m3 = m2\<lparr>currentIndex := int (length (history m2)) - 1\<rparr>
             in (st', if length (history m3) > maxHistorySize m3
                      then m3\<lparr>history := tl (history m3), currentIndex := currentIndex m3 - 1\<rparr>
                      else m3))"

definition canUndo :: "HistoryManager \<Rightarrow> bool" where
  "canUndo m = (currentIndex m > 0)"

definition canRedo :: "HistoryManager \<Rightarrow> bool" where
  "canRedo m = (currentIndex m < int (length (history m)) - 1)"

text \<open>
  \<open>undo\<close> and \<open>redo\<close> return the store, the manager and either the exception thrown or
  the value returned (\<open>None\<close> is \<open>null\<close>).  The index is moved before the entry is read,
  so it stays moved when reading \<open>state.actionName\<close> of a missing entry throws.
\<close>

definition undo ::
  "store \<Rightarrow> HistoryManager \<Rightarrow> store \<times> HistoryManager \<times> (js_error + ref option)" where
  "undo st m =
     (if \<not> canUndo m then (st, m, Inr None)
      else let m' = m\<lparr>currentIndex := currentIndex m - 1\<rparr>
           in case at_index (history m') (currentIndex m') of
                None \<Rightarrow> (st, m', Inl TypeError)
              | Some state \<Rightarrow>
                  (case cloneImageData st (imageData state) of
                     Inl e \<Rightarrow> (st, m', Inl e)
                   | Inr (st', c) \<Rightarrow> (st', m', Inr (Some c))))"

definition redo ::
  "store \<Rightarrow> HistoryManager \<Rightarrow> store \<times> HistoryManager \<times> (js_error + ref option)" where
  "redo st m =
     (if \<not> canRedo m then (st, m, Inr None)
      else let m' = m\<lparr>currentIndex := currentIndex m + 1\<rparr>
           in case at_index (history m') (currentIndex m') of
                None \<Rightarrow> (st, m', Inl TypeError)
              | Some state \<Rightarrow>
                  (case cloneImageData st (imageData state) of
                     Inl e \<Rightarrow> (st, m', Inl e)
                   | Inr (st', c) \<Rightarrow> (st', m', Inr (Some c))))"

definition getCurrentActionName :: "HistoryManager \<Rightarrow> string option" where
  "getCurrentActionName m =
     (if currentIndex m \<ge> 0 \<and> currentIndex m < int (length (history m))
      then Some (actionName (history m ! nat (currentIndex m))) else None)"

definition clear :: "HistoryManager \<Rightarrow> HistoryManager" where
  "clear m = m\<lparr>history := [], currentIndex := - 1\<rparr>"

text \<open>A caller that never pushes: any sequence of undo, redo and clear requests.\<close>

datatype history_request = Undo | Redo | Clear

fun request :: "history_request \<Rightarrow> store \<times> HistoryManager \<Rightarrow> store \<times> HistoryManager" where
  "request Undo (st, m) = (case undo st m of (st', m', r) \<Rightarrow> (st', m'))"
| "request Redo (st, m) = (case redo st m of (st', m', r) \<Rightarrow> (st', m'))"
| "request Clear (st, m) = (st, clear m)"

text \<open>
  A sequence of pushes, one \<open>saveState\<close> call per element (raster, label, clock
  value), and the entries such a sequence creates: each call allocates exactly one
  clone, so the clones of pushes made on a store of size \<open>base\<close> are named
  \<open>base\<close>, \<open>base + 1\<close>, ...
\<close>

fun saveStates ::
  "(ref \<times> string \<times> nat) list \<Rightarrow> store \<times> HistoryManager \<Rightarrow> store \<times> HistoryManager" where
  "saveStates [] sm = sm"
| "saveStates ((img, name, now) # ps) (st, m) = saveStates ps (saveState st m img name now)"

definition entries :: "nat \<Rightarrow> (ref \<times> string \<times> nat) list \<Rightarrow> HistoryEntry list" where
  "entries base ps =
     map (\<lambda>(c, (img, name, now)). \<lparr>imageData = c, actionName = name, timestamp = now\<rparr>)
       (enumerate base ps)"

definition lastN :: "nat \<Rightarrow> 'a list \<Rightarrow> 'a list" where
  "lastN n xs = drop (length xs - n) xs"

text \<open>
  The states the class reaches from a new manager through \<open>saveState\<close>, \<open>undo\<close>,
  \<open>redo\<close> and \<open>clear\<close> keep the index between -1 and the last position.
\<close>

definition indexInRange :: "HistoryManager \<Rightarrow> bool" where
  "indexInRange m = (- 1 \<le> currentIndex m \<and> currentIndex m < int (length (history m)))"

section \<open>Doubles\<close>

text \<open>
  The coordinates of the selection are JavaScript numbers, that is IEEE 754 doubles.
  A finite double is modelled by the real it denotes.  \<open>toDouble\<close> rounds a real to
  the nearest double, a tie to the even mantissa: with \<open>e\<close> the binary exponent of
  \<open>x\<close> (not below -1022, where the subnormal numbers begin) the doubles around \<open>x\<close>
  are the multiples of \<open>2 ^ (e - 52)\<close>.  Overflow to \<open>Infinity\<close> is left out: the
  coordinates are clamped to the canvas.
\<close>

function exponentUp :: "real \<Rightarrow> int" where
  "exponentUp x = (if 2 \<le> x then exponentUp (x / 2) + 1 else 0)"
  by pat_completeness auto
termination
proof (relation "measure (\<lambda>x. nat \<lfloor>x\<rfloor>)")
  show "wf (measure (\<lambda>x::real. nat \<lfloor>x\<rfloor>))" by simp
next
  fix x :: real
  assume x: "2 \<le> x"
  have "x / 2 \<le> x - 1" using x by simp
  then have "\<lfloor>x / 2\<rfloor> \<le> \<lfloor>x - 1\<rfloor>" by (rule floor_mono)
  then have "\<lfloor>x / 2\<rfloor> < \<lfloor>x\<rfloor>" by simp
  moreover have "0 < \<lfloor>x\<rfloor>" using x by simp
  ultimately show "(x / 2, x) \<in> measure (\<lambda>x. nat \<lfloor>x\<rfloor>)" by simp
qed

function exponentDown :: "real \<Rightarrow> int" where
  "exponentDown x = (if 0 < x \<and> x < 1 then exponentDown (2 * x) - 1 else 0)"
  by pat_completeness auto
termination
proof (relation "measure (\<lambda>x. nat \<lceil>1 / x\<rceil>)")
  show "wf (measure (\<lambda>x::real. nat \<lceil>1 / x\<rceil>))" by simp
next
  fix x :: real
  assume x: "0 < x \<and> x < 1"
  then have y: "1 < 1 / x" by simp
  then have c: "2 \<le> \<lceil>1 / x\<rceil>" by (simp add: le_ceiling_iff)
  have "1 / x \<le> of_int \<lceil>1 / x\<rceil>" by (rule le_of_int_ceiling)
  then have "1 / (2 * x) \<le> of_int \<lceil>1 / x\<rceil> / 2" by simp
  also have "\<dots> \<le> of_int (\<lceil>1 / x\<rceil> - 1)" using c by simp
  finally have "\<lceil>1 / (2 * x)\<rceil> \<le> \<lceil>1 / x\<rceil> - 1" by (rule ceiling_le)
  with c x show "(2 * x, x) \<in> measure (\<lambda>x. nat \<lceil>1 / x\<rceil>)" by simp
qed

text \<open>The binary exponent of a positive real \<open>x\<close>: \<open>2 ^ e \<le> x < 2 ^ (e + 1)\<close>.\<close>

definition exponent :: "real \<Rightarrow> int" where
  "exponent x = (if 1 \<le> x then exponentUp x else exponentDown x)"

definition pow2 :: "int \<Rightarrow> real" where
  "pow2 e = (if 0 \<le> e then 2 ^ nat e else 1 / 2 ^ nat (- e))"

definition roundHalfEven :: "real \<Rightarrow> int" where
  "roundHalfEven q =
     (let f = \<lfloor>q\<rfloor>; r = q - of_int f
      in if r < 1 / 2 then f else if 1 / 2 < r then f + 1
         else if even f then f else f + 1)"

definition toDouble :: "real \<Rightarrow> real" where
  "toDouble x =
     (if x = 0 then 0
      else let e = max (exponent \<bar>x\<bar>) (- 1022);
               ulp = pow2 (e - 52)
           in of_int (roundHalfEven (x / ulp)) * ulp)"

text \<open>
  The subtraction \<open>a - b\<close> of two doubles: the exact difference, rounded.  The operands
  are doubles; a real that is not one (a number written in decimal, say) stands for the
  double nearest to it, as it does in the source language, which is why the operands
  are rounded first.  On doubles that rounding changes nothing.
\<close>

definition doubleSub :: "real \<Rightarrow> real \<Rightarrow> real" where
  "doubleSub a b = toDouble (toDouble a - toDouble b)"

section \<open>SelectionManager\<close>

text \<open>
  Points are in canvas pixels and need not be whole numbers: \<open>getCanvasPoint\<close> scales
  the pointer position by the ratio of canvas size to displayed size and clamps it to
  the canvas.  The events below carry the point \<open>getCanvasPoint\<close> returned, a pair
  of finite doubles.  \<open>Math.min\<close>, \<open>Math.abs\<close> and the comparison with 5 are exact
  on doubles; the subtraction is \<open>doubleSub\<close>.
\<close>

type_synonym point = "real \<times> real"

record Rectangle =
  rect_x :: real
  rect_y :: real
  rect_width :: real
  rect_height :: real

text \<open>
  The fields of the class that hold selection state.  The overlay drawing, the cursor
  style and the \<open>onSelectionChange\<close> callback (which only recomputes button states)
  are left out.  The mode is the string the caller passes.
\<close>

record SelectionManager =
  isSelecting :: bool
  selectionMode :: string
  selectionPath :: "point list"
  rectangleSelection :: "Rectangle option"
  isConfirmed :: bool
  startPoint :: "point option"
  currentPoint :: "point option"

definition newSelectionManager :: SelectionManager where
  "newSelectionManager =
     \<lparr>isSelecting = False, selectionMode = ''rectangle'', selectionPath = [],
      rectangleSelection = None, isConfirmed = False, startPoint = None, currentPoint = None\<rparr>"

definition hasSelection :: "SelectionManager \<Rightarrow> bool" where
  "hasSelection s =
     (if selectionMode s = ''full'' then isConfirmed s
      else if selectionMode s = ''rectangle'' then rectangleSelection s \<noteq> None \<and> isConfirmed s
      else if selectionMode s = ''freehand'' then length (selectionPath s) > 0 \<and> isConfirmed s
      else False)"

definition isSelectionConfirmed :: "SelectionManager \<Rightarrow> bool" where
  "isSelectionConfirmed s = (if selectionMode s = ''full'' then True else isConfirmed s)"

definition clearSelection :: "bool \<Rightarrow> SelectionManager \<Rightarrow> SelectionManager" where
  "clearSelection resetToDefault s =
     (let s1 = s\<lparr>isSelecting := False, selectionPath := [], rectangleSelection := None,
                 startPoint := None, currentPoint := None\<rparr>
      in if resetToDefault then s1\<lparr>selectionMode := ''rectangle'', isConfirmed := False\<rparr>
         else if selectionMode s1 \<noteq> ''full'' then s1\<lparr>isConfirmed := False\<rparr>
         else s1)"

definition setSelectionMode :: "string \<Rightarrow> SelectionManager \<Rightarrow> SelectionManager" where
  "setSelectionMode mode s =
     (let previousMode = selectionMode s;
          s1 = clearSelection False (s\<lparr>selectionMode := mode\<rparr>)
      in if mode = ''full'' \<and> previousMode \<noteq> ''full'' then s1\<lparr>isConfirmed := True\<rparr>
         else if mode \<noteq> ''full'' then s1\<lparr>isConfirmed := False\<rparr>
         else s1)"

definition handleMouseDown :: "nat \<Rightarrow> point \<Rightarrow> SelectionManager \<Rightarrow> SelectionManager" where
  "handleMouseDown button point s =
     (if button \<noteq> 0 then s
      else let s1 = s\<lparr>startPoint := Some point, currentPoint := Some point,
                      isSelecting := True, isConfirmed := False\<rparr>
           in if selectionMode s1 = ''freehand'' then s1\<lparr>selectionPath := [point]\<rparr> else s1)"

definition handleMouseMove :: "point \<Rightarrow> SelectionManager \<Rightarrow> SelectionManager" where
  "handleMouseMove point s =
     (if \<not> isSelecting s then s
      else let s1 = s\<lparr>currentPoint := Some point\<rparr>
           in if selectionMode s1 = ''rectangle'' then s1
              else if selectionMode s1 = ''freehand''
                   then s1\<lparr>selectionPath := selectionPath s1 @ [point]\<rparr>
              else s1)"

text \<open>
  The two finalisers return the state together with the exception thrown, if any:
  destructuring \<open>this.startPoint\<close> or \<open>this.currentPoint\<close> throws when it is
  \<open>null\<close>.  An exception leaves the fields as they were when it was thrown.
\<close>

definition finalizeRectangleSelection ::
  "SelectionManager \<Rightarrow> SelectionManager \<times> js_error option" where
  "finalizeRectangleSelection s =
     (case startPoint s of
        None \<Rightarrow> (s, Some TypeError)
      | Some (startX, startY) \<Rightarrow>
          (case currentPoint s of
             None \<Rightarrow> (s, Some TypeError)
           | Some (currentX, currentY) \<Rightarrow>
               let x = min startX currentX;
                   y = min startY currentY;
                   width = \<bar>doubleSub currentX startX\<bar>;
                   height = \<bar>doubleSub currentY startY\<bar>
               in if width < 5 \<or> height < 5 then (clearSelection False s, None)
                  else (s\<lparr>rectangleSelection :=
                            Some \<lparr>rect_x = x, rect_y = y, rect_width = width, rect_height = height\<rparr>,
                          isConfirmed := True\<rparr>, None)))"

definition finalizeFreehandSelection ::
  "SelectionManager \<Rightarrow> SelectionManager \<times> js_error option" where
  "finalizeFreehandSelection s =
     (if length (selectionPath s) < 10 then (clearSelection False s, None)
      else let s1 = (if length (selectionPath s) > 0
                     then s\<lparr>selectionPath := selectionPath s @ [selectionPath s ! 0]\<rparr>
                     else s)
           in (s1\<lparr>isConfirmed := True\<rparr>, None))"

definition handleMouseUp :: "nat \<Rightarrow> SelectionManager \<Rightarrow> SelectionManager \<times> js_error option" where
  "handleMouseUp button s =
     (if button \<noteq> 0 \<or> \<not> isSelecting s then (s, None)
      else let s1 = s\<lparr>isSelecting := False\<rparr>
           in if selectionMode s1 = ''rectangle'' then finalizeRectangleSelection s1
              else if selectionMode s1 = ''freehand'' then finalizeFreehandSelection s1
              else (s1, None))"

definition handleRightClick :: "SelectionManager \<Rightarrow> SelectionManager" where
  "handleRightClick s =
     (if hasSelection s \<and> isConfirmed s then clearSelection False s else s)"

definition confirmSelection :: "SelectionManager \<Rightarrow> SelectionManager" where
  "confirmSelection s = s\<lparr>isConfirmed := True\<rparr>"

definition clearSelectionKeepMode :: "SelectionManager \<Rightarrow> SelectionManager" where
  "clearSelectionKeepMode s =
     (let s1 = s\<lparr>isSelecting := False, selectionPath := [], rectangleSelection := None,
                 startPoint := None, currentPoint := None\<rparr>
      in if selectionMode s1 \<noteq> ''full'' then s1\<lparr>isConfirmed := False\<rparr>
         else s1\<lparr>isConfirmed := False\<rparr>)"

text \<open>
  What reaches the selection model between two mode changes: the pointer events
  (a touch arrives as the mouse event with button 0), the context-menu event, and the
  calls \<open>clearSelection()\<close>, \<open>confirmSelection()\<close> and \<open>clearSelectionKeepMode()\<close>.
  An exception thrown by a handler ends that handler only; the next event finds the
  fields as the handler left them.
\<close>

datatype selection_event =
    MouseDown nat point
  | MouseMove point
  | MouseUp nat
  | RightClick
  | ClearSelection
  | ConfirmSelection
  | ClearSelectionKeepMode

fun dispatch :: "selection_event \<Rightarrow> SelectionManager \<Rightarrow> SelectionManager" where
  "dispatch (MouseDown button p) s = handleMouseDown button p s"
| "dispatch (MouseMove p) s = handleMouseMove p s"
| "dispatch (MouseUp button) s = fst (handleMouseUp button s)"
| "dispatch RightClick s = handleRightClick s"
| "dispatch ClearSelection s = clearSelection False s"
| "dispatch ConfirmSelection s = confirmSelection s"
| "dispatch ClearSelectionKeepMode s = clearSelectionKeepMode s"

text \<open>
  A drag gesture: primary button down at \<open>S\<close>, moves through the points \<open>ps\<close>,
  primary button up.  Its end point is the last point moved to (\<open>S\<close> itself when
  there was no move): the button-up event carries no point of its own.
\<close>

definition drag :: "point \<Rightarrow> point list \<Rightarrow> SelectionManager \<Rightarrow> SelectionManager" where
  "drag S ps s = fst (handleMouseUp 0 (fold handleMouseMove ps (handleMouseDown 0 S s)))"

text \<open>
  An event completes a drag of at least 5 by 5 pixels when it is the release of the
  primary button during a selection whose start and current point are at least 5 apart
  on both axes, the distances being the ones the code computes.
\<close>

definition completesDrag :: "SelectionManager \<Rightarrow> selection_event \<Rightarrow> bool" where
  "completesDrag s ev =
     (case ev of
        MouseUp button \<Rightarrow>
          button = 0 \<and> isSelecting s \<and>
          (case startPoint s of
             None \<Rightarrow> False
           | Some (startX, startY) \<Rightarrow>
               (case currentPoint s of
                  None \<Rightarrow> False
                | Some (currentX, currentY) \<Rightarrow>
                    5 \<le> \<bar>doubleSub currentX startX\<bar> \<and>
                    5 \<le> \<bar>doubleSub currentY startY\<bar>))
      | _ \<Rightarrow> False)"

fun noDragCompleted :: "selection_event list \<Rightarrow> SelectionManager \<Rightarrow> bool" where
  "noDragCompleted [] s = True"
| "noDragCompleted (ev # evs) s = (\<not> completesDrag s ev \<and> noDragCompleted evs (dispatch ev s))"

section \<open>MosaicApp: applying the mosaic\<close>

text \<open>
  The image processor: the bitmap of its canvas and \<open>originalImageData\<close> (\<open>null\<close>
  until an image is loaded).  The canvas is taken to store the bytes it is given, so
  that \<open>getImageData\<close> returns what \<open>putImageData\<close> wrote.
\<close>

record ImageProcessor =
  canvas :: ImageData
  originalImageData :: "ImageData option"

definition hasImage :: "ImageProcessor \<Rightarrow> bool" where
  "hasImage ip = (originalImageData ip \<noteq> None)"

text \<open>\<open>ctx.getImageData(0, 0, canvas.width, canvas.height)\<close>: a copy of the bitmap.\<close>

definition getImageData :: "ImageData \<Rightarrow> js_error + ImageData" where
  "getImageData c =
     (if width c = 0 \<or> height c = 0 then Inl IndexSizeError
      else Inr \<lparr>data = data c, width = width c, height = height c\<rparr>)"

text \<open>
  \<open>ctx.putImageData(imageData, 0, 0)\<close>: the pixels that fall on the canvas are
  replaced (\<open>img\<close> is the source's \<open>imageData\<close>).
\<close>

definition putImageData :: "ImageData \<Rightarrow> ImageData \<Rightarrow> ImageData" where
  "putImageData c img =
     c\<lparr>data :=
        map (\<lambda>i. let x = (i div 4) mod width c; y = (i div 4) div width c
                 in if x < width img \<and> y < height img
                    then data img ! ((y * width img + x) * 4 + i mod 4)
                    else data c ! i)
          [0..<length (data c)]\<rparr>"

text \<open>
  \<open>applyMosaic\<close> throws when no image is loaded; any exception inside its \<open>try\<close> is
  logged and turned into the result \<open>false\<close>.  \<open>None\<close>: the call does not return.
\<close>

definition applyMosaic ::
  "ImageProcessor \<Rightarrow> nat \<Rightarrow> ImageData option \<Rightarrow> bool \<Rightarrow>
   (ImageProcessor \<times> (js_error + bool)) option" where
  "applyMosaic ip blockSize selectionMask useCurrentState =
     (case originalImageData ip of
        None \<Rightarrow> Some (ip, Inl NoImageData)
      | Some original \<Rightarrow>
          (case (if useCurrentState then getImageData (canvas ip) else Inr original) of
             Inl e \<Rightarrow> Some (ip, Inr False)
           | Inr sourceImageData \<Rightarrow>
               let img = \<lparr>data = data sourceImageData, width = width sourceImageData,
                          height = height sourceImageData\<rparr>
               in (case (case selectionMask of
                           Some selMask \<Rightarrow> processMosaicWithMask img blockSize selMask
                         | None \<Rightarrow> processMosaic img blockSize) of
                     None \<Rightarrow> None
                   | Some processed \<Rightarrow>
                       Some (ip\<lparr>canvas := putImageData (canvas ip) processed\<rparr>, Inr True))))"

text \<open>
  The application: the three managers, the store of the rasters the history refers to,
  and the block size read from the slider.  Buttons, status and error texts are left out;
  what a call did is reported as an \<open>outcome\<close>.
\<close>

record MosaicApp =
  isProcessing :: bool
  imageProcessor :: ImageProcessor
  selectionManager :: SelectionManager
  historyManager :: HistoryManager
  heap :: store
  mosaicSizeSlider :: nat

text \<open>
  \<open>saveCurrentState\<close>: reads the canvas into a new \<open>ImageData\<close> and pushes it;
  \<open>now\<close> is the clock value \<open>saveState\<close> reads.
\<close>

definition saveCurrentState :: "MosaicApp \<Rightarrow> string \<Rightarrow> nat \<Rightarrow> js_error + MosaicApp" where
  "saveCurrentState app name now =
     (if hasImage (imageProcessor app)
      then (case getImageData (canvas (imageProcessor app)) of
              Inl e \<Rightarrow> Inl e
            | Inr currentImageData \<Rightarrow>
                (case saveState (heap app @ [currentImageData]) (historyManager app)
                        (length (heap app)) name now of
                   (st, m) \<Rightarrow> Inr (app\<lparr>heap := st, historyManager := m\<rparr>)))
      else Inr app)"

text \<open>
  \<open>Ignored\<close>: the call returned at once (busy, or no image).  \<open>InvalidOperation\<close>: the
  call showed the request to confirm the selection and returned.  \<open>Applied\<close>: the mosaic
  was applied and pushed.  \<open>ProcessingFailed\<close>: the processing-failed error was shown.
\<close>

datatype outcome = Ignored | InvalidOperation | Applied | ProcessingFailed

text \<open>
  \<open>processImage\<close>.  The canvas rasterisation of \<open>createSelectionMask\<close> is a parameter.
  The handler waits once (\<open>await delay\<close>) between its checks and the processing; it is
  modelled without other handlers running in between.  \<open>isProcessing\<close> is set during
  the processing and reset by \<open>finally\<close>.
\<close>

definition processImage ::
  "(SelectionManager \<Rightarrow> nat \<Rightarrow> nat \<Rightarrow> ImageData) \<Rightarrow> nat \<Rightarrow> MosaicApp \<Rightarrow>
   (MosaicApp \<times> outcome) option" where
  "processImage createSelectionMask now app =
     (if isProcessing app \<or> \<not> hasImage (imageProcessor app) then Some (app, Ignored)
      else
        let mode = selectionMode (selectionManager app);
            hasSel = hasSelection (selectionManager app);
            isConf = isSelectionConfirmed (selectionManager app)
        in if mode \<noteq> ''full'' \<and> hasSel \<and> \<not> isConf then Some (app, InvalidOperation)
           else
             let selectionMask =
                   (if hasSelection (selectionManager app) \<and>
                       selectionMode (selectionManager app) \<noteq> ''full''
                    then Some (createSelectionMask (selectionManager app)
                                 (width (canvas (imageProcessor app)))
                                 (height (canvas (imageProcessor app))))
                    else None);
                 blockSize = mosaicSizeSlider app
             in (case applyMosaic (imageProcessor app) blockSize selectionMask True of
                   None \<Rightarrow> None
                 | Some (ip, Inl e) \<Rightarrow>
                     Some (app\<lparr>imageProcessor := ip, isProcessing := False\<rparr>, ProcessingFailed)
                 | Some (ip, Inr success) \<Rightarrow>
                     if success
                     then (case saveCurrentState (app\<lparr>imageProcessor := ip\<rparr>)
                                  ''Mosaic Applied'' now of
                             Inl e \<Rightarrow>
                               Some (app\<lparr>imageProcessor := ip, isProcessing := False\<rparr>,
                                     ProcessingFailed)
                           | Inr app1 \<Rightarrow>
                               Some (app1\<lparr>selectionManager :=
                                            clearSelectionKeepMode (selectionManager app1),
                                          isProcessing := False\<rparr>, Applied))
                     else Some (app\<lparr>imageProcessor := ip, isProcessing := False\<rparr>,
                                ProcessingFailed)))"

section \<open>Sample states\<close>

text \<open>Small concrete states on which the theorems below are exercised.\<close>

definition sample_store :: store where
  "sample_store =
     [\<lparr>data = [1, 2, 3, 255], width = 1, height = 1\<rparr>,
      \<lparr>data = [9, 8, 7, 255], width = 1, height = 1\<rparr>]"

definition sample_history :: HistoryManager where
  "sample_history =
     \<lparr>history = [\<lparr>imageData = 0, actionName = ''Initial Image Load'', timestamp = 1\<rparr>,
                 \<lparr>imageData = 1, actionName = ''Mosaic Applied'', timestamp = 2\<rparr>],
      currentIndex = 1, maxHistorySize = 2\<rparr>"

definition sample_pushes :: "(ref \<times> string \<times> nat) list" where
  "sample_pushes =
     [(0, ''Initial Image Load'', 1), (1, ''Mosaic Applied'', 2), (0, ''Reset to Original'', 3)]"

text \<open>
  A session right after a two-pixel image was loaded: the initial state is in the
  history, the selection manager is new (rectangle mode, nothing selected) and the
  slider is at its default.
\<close>

definition sample_image :: ImageData where
  "sample_image = \<lparr>data = [10, 20, 30, 255, 30, 41, 50, 200], width = 2, height = 1\<rparr>"

definition sample_app :: MosaicApp where
  "sample_app =
     \<lparr>isProcessing = False,
      imageProcessor = \<lparr>canvas = sample_image, originalImageData = Some sample_image\<rparr>,
      selectionManager = newSelectionManager,
      historyManager =
        \<lparr>history = [\<lparr>imageData = 1, actionName = ''Initial Image Load'', timestamp = 1\<rparr>],
         currentIndex = 0, maxHistorySize = 10\<rparr>,
      heap = [sample_image, sample_image],
      mosaicSizeSlider = 10\<rparr>"

text \<open>A mask for the two-pixel image that selects the second pixel only.\<close>

definition sample_mask :: ImageData where
  "sample_mask = \<lparr>data = [0, 0, 0, 255, 255, 255, 255, 255], width = 2, height = 1\<rparr>"

section \<open>Properties of the double rounding\<close>

text \<open>
  \<open>exponent\<close> is the binary exponent of a positive real, so the step of \<open>toDouble\<close> is
  the distance between neighbouring doubles at \<open>x\<close>; \<open>toDouble x\<close> is a multiple of that
  step and at most half a step away from \<open>x\<close>.
\<close>

lemma pow2_pos: "0 < pow2 e"
  by (simp add: pow2_def)

lemma pow2_succ: "pow2 (e + 1) = 2 * pow2 e"
proof (cases "0 \<le> e")
  case True
  then show ?thesis by (simp add: pow2_def nat_add_distrib)
next
  case False
  then have "nat (- e) = Suc (nat (- e - 1))" by simp
  then have "(2::real) ^ nat (- e) = 2 * 2 ^ nat (- e - 1)" by (metis power_Suc)
  with False show ?thesis by (simp add: pow2_def)
qed

lemma exponentUp_bounds:
  "1 \<le> x \<Longrightarrow> pow2 (exponentUp x) \<le> x \<and> x < pow2 (exponentUp x + 1)"
proof (induction x rule: exponentUp.induct)
  case (1 x)
  show ?case
  proof (cases "2 \<le> x")
    case True
    then have h: "1 \<le> x / 2" by simp
    have e: "exponentUp x = exponentUp (x / 2) + 1"
      using True by (subst exponentUp.simps) (simp only: if_True)
    note ih = 1(1) [OF True h, unfolded pow2_succ]
    show ?thesis unfolding e pow2_succ using ih by auto
  next
    case False
    then have e: "exponentUp x = 0"
      by (subst exponentUp.simps) (simp only: if_False)
    from False 1(2) show ?thesis unfolding e by (simp add: pow2_def)
  qed
qed

lemma exponentDown_bounds:
  "0 < x \<Longrightarrow> x < 1 \<Longrightarrow> pow2 (exponentDown x) \<le> x \<and> x < pow2 (exponentDown x + 1)"
proof (induction x rule: exponentDown.induct)
  case (1 x)
  have c: "0 < x \<and> x < 1" using 1(2) 1(3) by simp
  have e: "exponentDown x = exponentDown (2 * x) - 1"
    using c by (subst exponentDown.simps) (simp only: if_True simp_thms)
  show ?case
  proof (cases "2 * x < 1")
    case True
    have p: "0 < 2 * x" using 1(2) by simp
    note ih = 1(1) [OF c p True, unfolded pow2_succ]
    have q: "pow2 (exponentDown (2 * x)) = 2 * pow2 (exponentDown (2 * x) - 1)"
      using pow2_succ [of "exponentDown (2 * x) - 1"] by simp
    have r: "exponentDown (2 * x) - 1 + 1 = exponentDown (2 * x)" by simp
    show ?thesis unfolding e r using ih q by linarith
  next
    case False
    then have z: "exponentDown (2 * x) = 0"
      by (subst exponentDown.simps) simp
    from False 1(3) show ?thesis unfolding e z by (simp add: pow2_def)
  qed
qed

lemma exponent_bounds:
  assumes "0 < x"
  shows "pow2 (exponent x) \<le> x \<and> x < pow2 (exponent x + 1)"
proof (cases "1 \<le> x")
  case True
  then have e: "exponent x = exponentUp x" by (simp only: exponent_def if_True)
  show ?thesis unfolding e using True by (rule exponentUp_bounds)
next
  case False
  then have e: "exponent x = exponentDown x" by (simp only: exponent_def if_False)
  from False have l: "x < 1" by simp
  show ?thesis unfolding e using assms l by (rule exponentDown_bounds)
qed

lemma roundHalfEven_near: "\<bar>of_int (roundHalfEven q) - q\<bar> \<le> 1 / 2"
  unfolding roundHalfEven_def Let_def
  by (simp add: abs_le_iff)

lemma toDouble_near:
  "\<bar>toDouble x - x\<bar> \<le> pow2 (max (exponent \<bar>x\<bar>) (- 1022) - 52) / 2"
proof (cases "x = 0")
  case True
  then show ?thesis using pow2_pos [of "max (exponent \<bar>x\<bar>) (- 1022) - 52"]
    by (simp add: toDouble_def)
next
  case False
  let ?u = "pow2 (max (exponent \<bar>x\<bar>) (- 1022) - 52)"
  have u: "0 < ?u" by (rule pow2_pos)
  have "toDouble x - x = (of_int (roundHalfEven (x / ?u)) - x / ?u) * ?u"
    using u False by (simp add: toDouble_def Let_def algebra_simps)
  then have "\<bar>toDouble x - x\<bar> = \<bar>of_int (roundHalfEven (x / ?u)) - x / ?u\<bar> * ?u"
    using u by (simp add: abs_mult)
  also have "\<dots> \<le> 1 / 2 * ?u"
    using roundHalfEven_near [of "x / ?u"] u by (intro mult_right_mono) simp_all
  finally show ?thesis by simp
qed

section \<open>Properties of the mosaic\<close>

text \<open>
  The loops are unfolded one iteration at a time in the proofs below; their defining
  equations are taken out of the simplifier's rules.
\<close>

declare calculateAverageColor_x.simps [simp del] calculateAverageColor_y.simps [simp del]
  fillBlock_x.simps [simp del] fillBlock_y.simps [simp del]
  hasSelectedPixels_x.simps [simp del] hasSelectedPixels_y.simps [simp del]
  fillBlockWithMask_x.simps [simp del] fillBlockWithMask_y.simps [simp del]

subsection \<open>Indices and rounding\<close>

lemma pix_lt:
  fixes x y w h c :: nat
  assumes "x < w" and "y < h" and "c < 4"
  shows "(y * w + x) * 4 + c < w * h * 4"
proof -
  have "y * w + x < Suc y * w" using assms(1) by simp
  also have "\<dots> \<le> h * w" using assms(2) by (intro mult_le_mono1) simp
  finally have "y * w + x < w * h" by (simp add: mult.commute)
  with assms(3) show ?thesis by simp
qed

lemma pix_coords:
  fixes x y w c :: nat
  assumes "x < w" and "c < 4"
  shows "((y * w + x) * 4 + c) div 4 = y * w + x"
    and "((y * w + x) * 4 + c) mod 4 = c"
    and "(y * w + x) mod w = x"
    and "(y * w + x) div w = y"
proof -
  show "((y * w + x) * 4 + c) div 4 = y * w + x" using assms(2) by simp
  have "\<And>k::nat. (k * 4 + c) mod 4 = c" using assms(2) by presburger
  then show "((y * w + x) * 4 + c) mod 4 = c" .
  show "(y * w + x) mod w = x" using assms(1) by simp
  show "(y * w + x) div w = y" using assms(1) by simp
qed

lemma in_row_iff:
  fixes x0 x1 y w p :: nat
  assumes "x1 \<le> w"
  shows "(y * w + x0 \<le> p \<and> p < y * w + x1) = (p div w = y \<and> x0 \<le> p mod w \<and> p mod w < x1)"
proof (cases "w = 0")
  case True
  with assms show ?thesis by simp
next
  case False
  then have w: "0 < w" by simp
  show ?thesis
  proof
    assume a: "y * w + x0 \<le> p \<and> p < y * w + x1"
    define r where "r = p - y * w"
    have r: "p = y * w + r" "r < x1" "x0 \<le> r"
      using a unfolding r_def by arith+
    then have "r < w" using assms by simp
    with r show "p div w = y \<and> x0 \<le> p mod w \<and> p mod w < x1" by simp
  next
    assume b: "p div w = y \<and> x0 \<le> p mod w \<and> p mod w < x1"
    have "p = (p div w) * w + p mod w" by simp
    then have "p = y * w + p mod w" using b by simp
    with b show "y * w + x0 \<le> p \<and> p < y * w + x1"
      by arith
  qed
qed

lemma index_lt_coords:
  fixes i w h :: nat
  assumes "i < w * h * 4"
  shows "(i div 4) mod w < w" and "(i div 4) div w < h"
proof -
  from assms have p: "i div 4 < w * h" by simp
  then have w: "0 < w" by (cases w) simp_all
  then show "(i div 4) mod w < w" by simp
  from p show "(i div 4) div w < h"
    by (simp add: less_mult_imp_div_less mult.commute)
qed

lemma roundedMean_nearest:
  assumes "0 < n"
  shows "\<bar>real (roundedMean s n) - real s / real n\<bar> \<le> 1 / 2"
proof -
  let ?m = "roundedMean s n"
  have lo: "2 * n * ?m \<le> 2 * s + n"
    unfolding roundedMean_def by simp
  have hi: "2 * s + n < 2 * n * (?m + 1)"
    unfolding roundedMean_def
    using assms dividend_less_times_div [of "2 * n" "2 * s + n"] by simp
  have n: "0 < real n" using assms by simp
  define P where "P = real ?m * real n"
  have "real (2 * n * ?m) \<le> real (2 * s + n)" using lo by (rule of_nat_mono)
  then have "2 * P \<le> 2 * real s + real n" by (simp add: P_def mult_ac)
  then have 1: "P - real s \<le> real n / 2" by simp
  have "real (2 * s + n) < real (2 * n * (?m + 1))" using hi by (rule of_nat_less_iff [THEN iffD2])
  then have "2 * real s + real n < 2 * P + 2 * real n" by (simp add: P_def algebra_simps)
  then have 2: "real s - P < real n / 2" by simp
  have "\<bar>P - real s\<bar> \<le> real n / 2" using 1 2 by linarith
  then have "\<bar>real ?m * real n - real s\<bar> \<le> real n / 2" unfolding P_def .
  then have "\<bar>real ?m * real n - real s\<bar> / real n \<le> (real n / 2) / real n"
    using n by (simp add: divide_right_mono)
  moreover have "\<bar>real ?m * real n - real s\<bar> / real n = \<bar>real ?m - real s / real n\<bar>"
    using n by (simp add: abs_div_pos diff_divide_distrib)
  ultimately show ?thesis using n by simp
qed

lemma roundedMean_le:
  assumes "0 < n" and "s \<le> 255 * n"
  shows "roundedMean s n \<le> 255"
proof -
  have "2 * s + n < 2 * n * 256" using assms by simp
  then have "(2 * s + n) div (2 * n) < 256"
    using assms(1) by (simp add: less_mult_imp_div_less mult.commute)
  then show ?thesis by (simp add: roundedMean_def)
qed

subsection \<open>The average of a tile\<close>

lemma calculateAverageColor_x_sum:
  "\<forall>x'. x \<le> x' \<and> x' < endX \<longrightarrow> (y * w + x') * 4 + 3 < length d \<Longrightarrow>
   calculateAverageColor_x d w y endX x (Num r, Num g, Num b, n) =
     (Num (r + (\<Sum>x'\<leftarrow>[x..<endX]. unat (d ! ((y * w + x') * 4 + 0)))),
      Num (g + (\<Sum>x'\<leftarrow>[x..<endX]. unat (d ! ((y * w + x') * 4 + 1)))),
      Num (b + (\<Sum>x'\<leftarrow>[x..<endX]. unat (d ! ((y * w + x') * 4 + 2)))),
      n + (endX - x))"
proof (induction "endX - x" arbitrary: x r g b n)
  case 0
  then show ?case by (simp add: calculateAverageColor_x.simps)
next
  case (Suc k)
  then have lt: "x < endX" and k: "k = endX - (x + 1)" by simp_all
  have inr: "(y * w + x) * 4 + 3 < length d" using Suc.prems lt by simp
  have rest: "\<forall>x'. x + 1 \<le> x' \<and> x' < endX \<longrightarrow> (y * w + x') * 4 + 3 < length d"
    using Suc.prems by simp
  have upt: "[x..<endX] = x # [x + 1..<endX]" using lt by (simp add: upt_conv_Cons)
  show ?case
    apply (subst calculateAverageColor_x.simps)
    using lt inr
    apply (simp add: Let_def getIndex_def Suc.hyps(1) [OF k rest, simplified] upt)
    done
qed

lemma calculateAverageColor_y_sum:
  "\<forall>x' y'. startX \<le> x' \<and> x' < endX \<and> y \<le> y' \<and> y' < endY \<longrightarrow>
      (y' * w + x') * 4 + 3 < length d \<Longrightarrow>
   calculateAverageColor_y d w startX endX endY y (Num r, Num g, Num b, n) =
     (Num (r + tileSum d w startX endX y endY 0),
      Num (g + tileSum d w startX endX y endY 1),
      Num (b + tileSum d w startX endX y endY 2),
      n + (endY - y) * (endX - startX))"
proof (induction "endY - y" arbitrary: y r g b n)
  case 0
  then show ?case by (simp add: calculateAverageColor_y.simps tileSum_def)
next
  case (Suc k)
  then have lt: "y < endY" and k: "k = endY - (y + 1)" by simp_all
  have row: "\<forall>x'. startX \<le> x' \<and> x' < endX \<longrightarrow> (y * w + x') * 4 + 3 < length d"
    using Suc.prems lt by simp
  have rest: "\<forall>x' y'. startX \<le> x' \<and> x' < endX \<and> y + 1 \<le> y' \<and> y' < endY \<longrightarrow>
      (y' * w + x') * 4 + 3 < length d"
    using Suc.prems by simp
  have upt: "[y..<endY] = y # [y + 1..<endY]" using lt by (simp add: upt_conv_Cons)
  have m: "Suc (endY - Suc y) = endY - y" using lt by simp
  show ?case
    apply (subst calculateAverageColor_y.simps)
    using lt
    apply (simp add: calculateAverageColor_x_sum [OF row] Suc.hyps(1) [OF k rest, simplified])
    apply (simp add: tileSum_def upt add.assoc flip: m)
    done
qed

lemma calculateAverageColor_tile:
  assumes "length d = w * h * 4"
  shows "calculateAverageColor d x y b w h =
     (roundDiv (Num (tileSum d w x (min (x + b) w) y (min (y + b) h) 0))
        ((min (y + b) h - y) * (min (x + b) w - x)),
      roundDiv (Num (tileSum d w x (min (x + b) w) y (min (y + b) h) 1))
        ((min (y + b) h - y) * (min (x + b) w - x)),
      roundDiv (Num (tileSum d w x (min (x + b) w) y (min (y + b) h) 2))
        ((min (y + b) h - y) * (min (x + b) w - x)))"
proof -
  have inr: "\<forall>x' y'. x \<le> x' \<and> x' < min (x + b) w \<and> y \<le> y' \<and> y' < min (y + b) h \<longrightarrow>
      (y' * w + x') * 4 + 3 < length d"
    using assms pix_lt [of _ w _ h 3] by simp
  show ?thesis
    unfolding calculateAverageColor_def Let_def
    using calculateAverageColor_y_sum [OF inr, of 0 0 0 0]
    by simp
qed

subsection \<open>Filling a tile under a mask\<close>

lemma length_setIndex: "length (setIndex d i v) = length d"
  by (simp add: setIndex_def)

lemma set3_nth:
  assumes "i < length d"
  shows "setIndex (setIndex (setIndex d (k * 4) r) (k * 4 + 1) g) (k * 4 + 2) b ! i =
     (if i div 4 = k \<and> i mod 4 < 3 then toUint8Clamped (channel (r, g, b) (i mod 4)) else d ! i)"
proof -
  consider "i = k * 4" | "i = k * 4 + 1" | "i = k * 4 + 2" | "\<not> (i div 4 = k \<and> i mod 4 < 3)"
    by atomize_elim arith
  then show ?thesis
  proof cases
    case 1
    then have dm: "i div 4 = k" "i mod 4 = 0" by arith+
    have "setIndex (setIndex (setIndex d (k * 4) r) (k * 4 + 1) g) (k * 4 + 2) b ! i
          = toUint8Clamped r"
      using assms 1 by (simp add: setIndex_def)
    then show ?thesis by (simp add: dm channel_def)
  next
    case 2
    then have dm: "i div 4 = k" "i mod 4 = 1" by arith+
    have "setIndex (setIndex (setIndex d (k * 4) r) (k * 4 + 1) g) (k * 4 + 2) b ! i
          = toUint8Clamped g"
      using assms 2 by (simp add: setIndex_def)
    then show ?thesis by (simp add: dm channel_def)
  next
    case 3
    then have dm: "i div 4 = k" "i mod 4 = 2" by arith+
    have "setIndex (setIndex (setIndex d (k * 4) r) (k * 4 + 1) g) (k * 4 + 2) b ! i
          = toUint8Clamped b"
      using assms 3 by (simp add: setIndex_def)
    then show ?thesis by (simp add: dm channel_def)
  next
    case 4
    then have ne: "i \<noteq> k * 4" "i \<noteq> k * 4 + 1" "i \<noteq> k * 4 + 2" by arith+
    have "setIndex (setIndex (setIndex d (k * 4) r) (k * 4 + 1) g) (k * 4 + 2) b ! i = d ! i"
      using ne by (simp add: setIndex_def)
    with 4 show ?thesis by auto
  qed
qed

lemma length_fillBlockWithMask_x:
  "length (fillBlockWithMask_x d md w y endX x color) = length d"
proof -
  obtain r g b where c: "color = (r, g, b)" by (cases color)
  have "length (fillBlockWithMask_x d md w y endX x (r, g, b)) = length d"
  proof (induction "endX - x" arbitrary: x d)
    case 0
    then show ?case by (simp add: fillBlockWithMask_x.simps)
  next
    case (Suc k)
    then have lt: "x < endX" and k: "k = endX - Suc x" by simp_all
    show ?case
      apply (subst fillBlockWithMask_x.simps)
      using lt by (simp add: Let_def Suc.hyps(1) [OF k] length_setIndex)
  qed
  then show ?thesis by (simp add: c)
qed

lemma fillBlockWithMask_x_nth:
  assumes "i < length d"
  shows "fillBlockWithMask_x d md w y endX x color ! i =
     (if i mod 4 < 3 \<and> y * w + x \<le> i div 4 \<and> i div 4 < y * w + endX \<and>
         selected md ((i div 4) * 4)
      then toUint8Clamped (channel color (i mod 4)) else d ! i)"
proof -
  obtain r g b where c: "color = (r, g, b)" by (cases color)
  have "i < length d \<Longrightarrow> fillBlockWithMask_x d md w y endX x (r, g, b) ! i =
     (if i mod 4 < 3 \<and> y * w + x \<le> i div 4 \<and> i div 4 < y * w + endX \<and>
         selected md ((i div 4) * 4)
      then toUint8Clamped (channel (r, g, b) (i mod 4)) else d ! i)"
  proof (induction "endX - x" arbitrary: x d)
    case 0
    then have e: "endX \<le> x" by simp
    then have "fillBlockWithMask_x d md w y endX x (r, g, b) = d"
      by (subst fillBlockWithMask_x.simps) simp
    moreover have "\<not> (y * w + x \<le> i div 4 \<and> i div 4 < y * w + endX)" using e by arith
    ultimately show ?case by auto
  next
    case (Suc k)
    then have lt: "x < endX" and k: "k = endX - (x + 1)" by simp_all
    let ?d1 = "if selected md ((y * w + x) * 4)
               then setIndex (setIndex (setIndex d ((y * w + x) * 4) r) ((y * w + x) * 4 + 1) g)
                      ((y * w + x) * 4 + 2) b
               else d"
    have len: "i < length ?d1" using Suc.prems by (simp add: length_setIndex)
    have d1: "?d1 ! i =
        (if i div 4 = y * w + x \<and> i mod 4 < 3 \<and> selected md ((i div 4) * 4)
         then toUint8Clamped (channel (r, g, b) (i mod 4)) else d ! i)"
      using set3_nth [OF Suc.prems, of "y * w + x" r g b] by auto
    have step: "fillBlockWithMask_x d md w y endX x (r, g, b) =
        fillBlockWithMask_x ?d1 md w y endX (x + 1) (r, g, b)"
      by (subst fillBlockWithMask_x.simps) (use lt in \<open>simp add: Let_def\<close>)
    have cases: "(y * w + x \<le> i div 4) = (i div 4 = y * w + x \<or> y * w + (x + 1) \<le> i div 4)"
      by arith
    have lt': "i div 4 = y * w + x \<Longrightarrow> i div 4 < y * w + endX" using lt by simp
    show ?case
      unfolding step Suc.hyps(1) [OF k len] d1 cases
      using lt' by auto
  qed
  with assms show ?thesis by (simp add: c)
qed

lemma length_fillBlockWithMask_y:
  "length (fillBlockWithMask_y d md w startX endX endY y color) = length d"
proof (induction "endY - y" arbitrary: y d)
  case 0
  then show ?case by (simp add: fillBlockWithMask_y.simps)
next
  case (Suc k)
  then have lt: "y < endY" and k: "k = endY - Suc y" by simp_all
  show ?case
    apply (subst fillBlockWithMask_y.simps)
    using lt by (simp add: Suc.hyps(1) [OF k] length_fillBlockWithMask_x)
qed

lemma fillBlockWithMask_y_nth:
  "endX \<le> w \<Longrightarrow> i < length d \<Longrightarrow>
   fillBlockWithMask_y d md w startX endX endY y color ! i =
     (if i mod 4 < 3 \<and> inTile w startX endX y endY i \<and> selected md ((i div 4) * 4)
      then toUint8Clamped (channel color (i mod 4)) else d ! i)"
proof (induction "endY - y" arbitrary: y d)
  case 0
  then have e: "endY \<le> y" by simp
  then have "fillBlockWithMask_y d md w startX endX endY y color = d"
    by (subst fillBlockWithMask_y.simps) simp
  moreover have "\<not> (y \<le> (i div 4) div w \<and> (i div 4) div w < endY)" using e by arith
  ultimately show ?case by (auto simp: inTile_def)
next
  case (Suc k)
  then have lt: "y < endY" and k: "k = endY - (y + 1)" by simp_all
  let ?d1 = "fillBlockWithMask_x d md w y endX startX color"
  have len: "i < length ?d1" using Suc.prems by (simp add: length_fillBlockWithMask_x)
  have d1: "?d1 ! i =
      (if i mod 4 < 3 \<and> ((i div 4) div w = y \<and> startX \<le> (i div 4) mod w \<and> (i div 4) mod w < endX) \<and>
          selected md ((i div 4) * 4)
       then toUint8Clamped (channel color (i mod 4)) else d ! i)"
    unfolding fillBlockWithMask_x_nth [OF Suc.prems(2)]
      in_row_iff [OF Suc.prems(1), symmetric] by simp
  have step: "fillBlockWithMask_y d md w startX endX endY y color =
      fillBlockWithMask_y ?d1 md w startX endX endY (y + 1) color"
    by (subst fillBlockWithMask_y.simps) (use lt in simp)
  have cases: "(y \<le> (i div 4) div w) = ((i div 4) div w = y \<or> y + 1 \<le> (i div 4) div w)"
    by arith
  have lt': "(i div 4) div w = y \<Longrightarrow> (i div 4) div w < endY" using lt by simp
  show ?case
    unfolding step Suc.hyps(1) [OF k Suc.prems(1) len] d1 inTile_def cases
    using lt' by auto
qed

lemma hasSelectedPixels_x_none:
  "\<not> hasSelectedPixels_x md w y endX x \<Longrightarrow> x \<le> x' \<Longrightarrow> x' < endX \<Longrightarrow>
   \<not> selected md ((y * w + x') * 4)"
proof (induction "endX - x" arbitrary: x)
  case 0
  then show ?case by simp
next
  case (Suc k)
  then have lt: "x < endX" and k: "k = endX - (x + 1)" by simp_all
  have unf: "hasSelectedPixels_x md w y endX x =
      (selected md ((y * w + x) * 4) \<or> hasSelectedPixels_x md w y endX (x + 1))"
    by (subst hasSelectedPixels_x.simps) (use lt in \<open>simp add: Let_def\<close>)
  from Suc.prems(1) have here: "\<not> selected md ((y * w + x) * 4)"
    and rest: "\<not> hasSelectedPixels_x md w y endX (x + 1)"
    unfolding unf by simp_all
  show ?case
  proof (cases "x' = x")
    case True
    with here show ?thesis by simp
  next
    case False
    with Suc.prems(2) have "x + 1 \<le> x'" by simp
    from Suc.hyps(1) [OF k rest this Suc.prems(3)] show ?thesis .
  qed
qed

lemma hasSelectedPixels_y_none:
  "\<not> hasSelectedPixels_y md w startX endX endY y \<Longrightarrow> startX \<le> x' \<Longrightarrow> x' < endX \<Longrightarrow>
   y \<le> y' \<Longrightarrow> y' < endY \<Longrightarrow> \<not> selected md ((y' * w + x') * 4)"
proof (induction "endY - y" arbitrary: y)
  case 0
  then show ?case by simp
next
  case (Suc k)
  then have lt: "y < endY" and k: "k = endY - (y + 1)" by simp_all
  have unf: "hasSelectedPixels_y md w startX endX endY y =
      (hasSelectedPixels_x md w y endX startX \<or> hasSelectedPixels_y md w startX endX endY (y + 1))"
    by (subst hasSelectedPixels_y.simps) (use lt in simp)
  from Suc.prems(1) have here: "\<not> hasSelectedPixels_x md w y endX startX"
    and rest: "\<not> hasSelectedPixels_y md w startX endX endY (y + 1)"
    unfolding unf by simp_all
  show ?case
  proof (cases "y' = y")
    case True
    with hasSelectedPixels_x_none [OF here Suc.prems(2,3)] show ?thesis by simp
  next
    case False
    with Suc.prems(4) have "y + 1 \<le> y'" by simp
    from Suc.hyps(1) [OF k rest Suc.prems(2,3) this Suc.prems(5)] show ?thesis .
  qed
qed

subsection \<open>One tile of the masked mosaic\<close>

lemma tileSum_cong:
  assumes "\<And>x' y'. x0 \<le> x' \<Longrightarrow> x' < x1 \<Longrightarrow> y0 \<le> y' \<Longrightarrow> y' < y1 \<Longrightarrow>
             d1 ! ((y' * w + x') * 4 + c) = d ! ((y' * w + x') * 4 + c)"
  shows "tileSum d1 w x0 x1 y0 y1 c = tileSum d w x0 x1 y0 y1 c"
  unfolding tileSum_def
  by (intro arg_cong [where f = sum_list] map_cong refl)
     (rule arg_cong [where f = unat], rule assms, simp_all)

lemma tileByte_cong:
  assumes "\<And>x' y'. tx \<le> x' \<Longrightarrow> x' < min (tx + b) w \<Longrightarrow> ty \<le> y' \<Longrightarrow> y' < min (ty + b) h \<Longrightarrow>
             d1 ! ((y' * w + x') * 4 + c) = d ! ((y' * w + x') * 4 + c)"
  shows "tileByte d1 b w h tx ty c = tileByte d b w h tx ty c"
proof -
  have "tileSum d1 w tx (min (tx + b) w) ty (min (ty + b) h) c =
        tileSum d w tx (min (tx + b) w) ty (min (ty + b) h) c"
    by (rule tileSum_cong) (rule assms)
  then show ?thesis by (simp only: tileByte_def)
qed

lemma channel_calculateAverageColor:
  assumes "length d = w * h * 4" and "c < 3"
  shows "toUint8Clamped (channel (calculateAverageColor d x y b w h) c) = tileByte d b w h x y c"
proof -
  from assms(2) consider "c = 0" | "c = 1" | "c = 2" by atomize_elim arith
  then show ?thesis
    by cases (simp_all add: calculateAverageColor_tile [OF assms(1)] channel_def tileByte_def)
qed

lemma div_mod_index: "((i div 4) div w * w + (i div 4) mod w) * 4 = (i div 4) * (4::nat)"
  by simp

lemma length_masked_tile:
  "length (if hasSelectedPixels md x y b w h
           then fillBlockWithMask d md x y b w h (calculateAverageColor d x y b w h)
           else d) = length d"
  by (simp add: fillBlockWithMask_def Let_def length_fillBlockWithMask_y)

lemma masked_tile_nth:
  assumes "length d = w * h * 4" and "i < length d"
  shows "(if hasSelectedPixels md x y b w h
          then fillBlockWithMask d md x y b w h (calculateAverageColor d x y b w h)
          else d) ! i =
     (if i mod 4 < 3 \<and> inTile w x (min (x + b) w) y (min (y + b) h) i \<and>
         selected md ((i div 4) * 4)
      then tileByte d b w h x y (i mod 4) else d ! i)"
proof (cases "hasSelectedPixels md x y b w h")
  case True
  have "fillBlockWithMask d md x y b w h (calculateAverageColor d x y b w h) ! i =
     (if i mod 4 < 3 \<and> inTile w x (min (x + b) w) y (min (y + b) h) i \<and>
         selected md ((i div 4) * 4)
      then toUint8Clamped (channel (calculateAverageColor d x y b w h) (i mod 4)) else d ! i)"
    unfolding fillBlockWithMask_def Let_def
    by (rule fillBlockWithMask_y_nth [OF _ assms(2)]) simp
  with True show ?thesis
    by (simp add: channel_calculateAverageColor [OF assms(1)])
next
  case False
  have "\<not> selected md ((i div 4) * 4)" if t: "inTile w x (min (x + b) w) y (min (y + b) h) i"
  proof -
    from False have n: "\<not> hasSelectedPixels_y md w x (min (x + b) w) (min (y + b) h) y"
      by (simp add: hasSelectedPixels_def Let_def)
    from t have "\<not> selected md (((i div 4) div w * w + (i div 4) mod w) * 4)"
      unfolding inTile_def by (intro hasSelectedPixels_y_none [OF n]) simp_all
    then show ?thesis unfolding div_mod_index .
  qed
  with False show ?thesis by auto
qed

lemma tile_origin_here:
  fixes b x p :: nat
  assumes "b dvd x" and "x \<le> p" and "p < x + b"
  shows "p div b * b = x"
proof -
  from assms(1) obtain k where k: "x = k * b" by (auto simp: dvd_def mult.commute)
  have b: "0 < b" using assms(2,3) by simp
  have "p div b = k"
    using assms(2,3) unfolding k
    by (intro div_nat_eqI) (simp_all add: mult.commute)
  then show ?thesis by (simp add: k)
qed

lemma tile_origin_later:
  fixes b x p :: nat
  assumes "b dvd x" and "0 < b" and "x + b \<le> p"
  shows "x + b \<le> p div b * b"
proof -
  from assms(1) obtain k where k: "x = k * b" by (auto simp: dvd_def mult.commute)
  have "Suc k * b \<le> p" using assms(3) by (simp add: k)
  then have "Suc k \<le> p div b" using assms(2) by (simp add: less_eq_div_iff_mult_less_eq)
  then have "Suc k * b \<le> p div b * b" by (rule mult_le_mono1)
  then show ?thesis by (simp add: k)
qed

subsection \<open>The loops over the tiles\<close>

lemma masked_tile_other_column:
  assumes len: "length d = w * h * 4" and c: "c < 4"
    and x': "x' < w" "x + b \<le> x'" and y': "y' < h"
  shows "(if hasSelectedPixels md x y b w h
          then fillBlockWithMask d md x y b w h (calculateAverageColor d x y b w h)
          else d) ! ((y' * w + x') * 4 + c) = d ! ((y' * w + x') * 4 + c)"
proof -
  let ?j = "(y' * w + x') * 4 + c"
  have j: "?j < length d" using pix_lt [OF x'(1) y' c] len by simp
  have "(?j div 4) mod w = x'" using pix_coords [OF x'(1) c, of y'] by simp
  then have "\<not> inTile w x (min (x + b) w) y (min (y + b) h) ?j"
    using x'(2) by (simp add: inTile_def)
  then show ?thesis
    unfolding masked_tile_nth [OF len j] by simp
qed

lemma processMosaicWithMask_x_spec:
  assumes b: "0 < b" and len: "length d = w * h * 4" and dvd: "b dvd x"
  shows "\<exists>d'. processMosaicWithMask_x b w h md y d x = Some d' \<and> length d' = length d \<and>
     (\<forall>i<length d. d' ! i =
        (if i mod 4 < 3 \<and> x \<le> (i div 4) mod w \<and>
            y \<le> (i div 4) div w \<and> (i div 4) div w < min (y + b) h \<and>
            selected md ((i div 4) * 4)
         then tileByte d b w h ((i div 4) mod w div b * b) y (i mod 4) else d ! i))"
  using len dvd
proof (induction "w - x" arbitrary: x d rule: less_induct)
  case less
  note len = less.prems(1) and dvd = less.prems(2)
  show ?case
  proof (cases "x < w")
    case False
    then have r: "processMosaicWithMask_x b w h md y d x = Some d"
      by (subst processMosaicWithMask_x.simps) simp
    have "\<not> x \<le> (i div 4) mod w" if "i < length d" for i
      using index_lt_coords(1) [of i w h] that len False by simp
    then show ?thesis unfolding r by auto
  next
    case True
    let ?d1 = "if hasSelectedPixels md x y b w h
               then fillBlockWithMask d md x y b w h (calculateAverageColor d x y b w h)
               else d"
    have len1: "length ?d1 = w * h * 4"
      using length_masked_tile [of md x y b w h d] len by simp
    have step: "processMosaicWithMask_x b w h md y d x =
                processMosaicWithMask_x b w h md y ?d1 (x + b)"
      by (subst processMosaicWithMask_x.simps) (use True in \<open>simp add: Let_def\<close>)
    have less': "w - (x + b) < w - x" using True b by arith
    have dvd': "b dvd x + b" using dvd by simp
    from less.hyps [OF less' len1 dvd']
    obtain d' where d': "processMosaicWithMask_x b w h md y ?d1 (x + b) = Some d'"
      and ld': "length d' = length ?d1"
      and nth: "\<And>i. i < length ?d1 \<Longrightarrow> d' ! i =
        (if i mod 4 < 3 \<and> x + b \<le> (i div 4) mod w \<and>
            y \<le> (i div 4) div w \<and> (i div 4) div w < min (y + b) h \<and>
            selected md ((i div 4) * 4)
         then tileByte ?d1 b w h ((i div 4) mod w div b * b) y (i mod 4) else ?d1 ! i)"
      by blast
    have "d' ! i =
        (if i mod 4 < 3 \<and> x \<le> (i div 4) mod w \<and>
            y \<le> (i div 4) div w \<and> (i div 4) div w < min (y + b) h \<and>
            selected md ((i div 4) * 4)
         then tileByte d b w h ((i div 4) mod w div b * b) y (i mod 4) else d ! i)"
      if i: "i < length d" for i
    proof -
      let ?px = "(i div 4) mod w" and ?py = "(i div 4) div w"
      let ?A = "i mod 4 < 3 \<and> y \<le> ?py \<and> ?py < min (y + b) h \<and> selected md ((i div 4) * 4)"
      have i1: "i < length ?d1" using i len len1 by simp
      have pxw: "?px < w" using index_lt_coords(1) [of i w h] i len by simp
      consider (later) "?A" "x + b \<le> ?px" | (here) "?A" "x \<le> ?px" "?px < x + b"
        | (out) "\<not> (?A \<and> x \<le> ?px)"
        by atomize_elim arith
      then show ?thesis
      proof cases
        case later
        let ?tx = "?px div b * b"
        have tx: "x + b \<le> ?tx" by (rule tile_origin_later [OF dvd b later(2)])
        have "tileByte ?d1 b w h ?tx y (i mod 4) = tileByte d b w h ?tx y (i mod 4)"
        proof (rule tileByte_cong)
          fix x' y'
          assume "?tx \<le> x'" "x' < min (?tx + b) w" "y \<le> y'" "y' < min (y + b) h"
          then have "x' < w" "x + b \<le> x'" "y' < h" using tx by simp_all
          then show "?d1 ! ((y' * w + x') * 4 + i mod 4) = d ! ((y' * w + x') * 4 + i mod 4)"
            by (intro masked_tile_other_column [OF len]) simp_all
        qed
        moreover have "x \<le> ?px" using later(2) by simp
        ultimately show ?thesis
          unfolding nth [OF i1] using later by simp
      next
        case here
        have tx: "?px div b * b = x" by (rule tile_origin_here [OF dvd here(2,3)])
        have "inTile w x (min (x + b) w) y (min (y + b) h) i"
          using here pxw by (simp add: inTile_def)
        then have "?d1 ! i = tileByte d b w h x y (i mod 4)"
          unfolding masked_tile_nth [OF len i] using here(1) by simp
        moreover have "\<not> x + b \<le> ?px" using here(3) by simp
        ultimately show ?thesis
          unfolding nth [OF i1] using here by (simp add: tx)
      next
        case out
        then have "\<not> (i mod 4 < 3 \<and> inTile w x (min (x + b) w) y (min (y + b) h) i \<and>
            selected md ((i div 4) * 4))"
          by (auto simp: inTile_def)
        then have "?d1 ! i = d ! i"
          unfolding masked_tile_nth [OF len i] by (simp only: if_False)
        moreover have "\<not> (?A \<and> x + b \<le> ?px)" using out by auto
        ultimately show ?thesis
          unfolding nth [OF i1] using out by auto
      qed
    qed
    then show ?thesis
      unfolding step d' using ld' len len1 by simp
  qed
qed

lemma processMosaicWithMask_y_spec:
  assumes b: "0 < b" and len: "length d = w * h * 4" and dvd: "b dvd y"
  shows "\<exists>d'. processMosaicWithMask_y b w h md d y = Some d' \<and> length d' = length d \<and>
     (\<forall>i<length d. d' ! i =
        (if i mod 4 < 3 \<and> y \<le> (i div 4) div w \<and> selected md ((i div 4) * 4)
         then tileByte d b w h ((i div 4) mod w div b * b) ((i div 4) div w div b * b) (i mod 4)
         else d ! i))"
  using len dvd
proof (induction "h - y" arbitrary: y d rule: less_induct)
  case less
  note len = less.prems(1) and dvd = less.prems(2)
  show ?case
  proof (cases "y < h")
    case False
    then have r: "processMosaicWithMask_y b w h md d y = Some d"
      by (subst processMosaicWithMask_y.simps) simp
    have "\<not> y \<le> (i div 4) div w" if "i < length d" for i
      using index_lt_coords(2) [of i w h] that len False by simp
    then show ?thesis unfolding r by auto
  next
    case True
    from processMosaicWithMask_x_spec [OF b len dvd_0_right, of md y]
    obtain d1 where d1: "processMosaicWithMask_x b w h md y d 0 = Some d1"
      and ld1: "length d1 = length d"
      and nth1: "\<And>i. i < length d \<Longrightarrow> d1 ! i =
        (if i mod 4 < 3 \<and> 0 \<le> (i div 4) mod w \<and>
            y \<le> (i div 4) div w \<and> (i div 4) div w < min (y + b) h \<and>
            selected md ((i div 4) * 4)
         then tileByte d b w h ((i div 4) mod w div b * b) y (i mod 4) else d ! i)"
      by blast
    have len1: "length d1 = w * h * 4" using ld1 len by simp
    have step: "processMosaicWithMask_y b w h md d y =
                processMosaicWithMask_y b w h md d1 (y + b)"
      by (subst processMosaicWithMask_y.simps) (use True d1 in simp)
    have less': "h - (y + b) < h - y" using True b by arith
    have dvd': "b dvd y + b" using dvd by simp
    from less.hyps [OF less' len1 dvd']
    obtain d' where d': "processMosaicWithMask_y b w h md d1 (y + b) = Some d'"
      and ld': "length d' = length d1"
      and nth: "\<And>i. i < length d1 \<Longrightarrow> d' ! i =
        (if i mod 4 < 3 \<and> y + b \<le> (i div 4) div w \<and> selected md ((i div 4) * 4)
         then tileByte d1 b w h ((i div 4) mod w div b * b) ((i div 4) div w div b * b) (i mod 4)
         else d1 ! i)"
      by blast
    have "d' ! i =
        (if i mod 4 < 3 \<and> y \<le> (i div 4) div w \<and> selected md ((i div 4) * 4)
         then tileByte d b w h ((i div 4) mod w div b * b) ((i div 4) div w div b * b) (i mod 4)
         else d ! i)"
      if i: "i < length d" for i
    proof -
      let ?px = "(i div 4) mod w" and ?py = "(i div 4) div w"
      let ?A = "i mod 4 < 3 \<and> selected md ((i div 4) * 4)"
      have i1: "i < length d1" using i ld1 by simp
      have pyh: "?py < h" using index_lt_coords(2) [of i w h] i len by simp
      consider (later) "?A" "y + b \<le> ?py" | (here) "?A" "y \<le> ?py" "?py < y + b"
        | (out) "\<not> (?A \<and> y \<le> ?py)"
        by atomize_elim arith
      then show ?thesis
      proof cases
        case later
        let ?tx = "?px div b * b" and ?ty = "?py div b * b"
        have ty: "y + b \<le> ?ty" by (rule tile_origin_later [OF dvd b later(2)])
        have "tileByte d1 b w h ?tx ?ty (i mod 4) = tileByte d b w h ?tx ?ty (i mod 4)"
        proof (rule tileByte_cong)
          fix x' y'
          assume a: "?tx \<le> x'" "x' < min (?tx + b) w" "?ty \<le> y'" "y' < min (?ty + b) h"
          let ?j = "(y' * w + x') * 4 + i mod 4"
          have x': "x' < w" and y': "y' < h" and c: "i mod 4 < 4" using a by simp_all
          have j: "?j < length d" using pix_lt [OF x' y' c] len by simp
          have "(?j div 4) div w = y'" using pix_coords [OF x' c, of y'] by simp
          then have "\<not> (?j div 4) div w < min (y + b) h" using a(3) ty by simp
          then have "\<not> (?j mod 4 < 3 \<and> 0 \<le> (?j div 4) mod w \<and>
              y \<le> (?j div 4) div w \<and> (?j div 4) div w < min (y + b) h \<and>
              selected md ((?j div 4) * 4))"
            by blast
          then show "d1 ! ?j = d ! ?j"
            unfolding nth1 [OF j] by (simp only: if_False)
        qed
        moreover have "y \<le> ?py" using later(2) by simp
        ultimately show ?thesis
          unfolding nth [OF i1] using later by simp
      next
        case here
        have ty: "?py div b * b = y" by (rule tile_origin_here [OF dvd here(2,3)])
        have "d1 ! i = tileByte d b w h (?px div b * b) y (i mod 4)"
          unfolding nth1 [OF i] using here pyh by simp
        moreover have "\<not> y + b \<le> ?py" using here(3) by simp
        ultimately show ?thesis
          unfolding nth [OF i1] using here by (simp add: ty)
      next
        case out
        then have "\<not> (i mod 4 < 3 \<and> 0 \<le> ?px \<and> y \<le> ?py \<and> ?py < min (y + b) h \<and>
            selected md ((i div 4) * 4))"
          by auto
        then have "d1 ! i = d ! i"
          unfolding nth1 [OF i] by (simp only: if_False)
        moreover have "\<not> (?A \<and> y + b \<le> ?py)" using out by auto
        ultimately show ?thesis
          unfolding nth [OF i1] using out by auto
      qed
    qed
    then show ?thesis
      unfolding step d' using ld' ld1 by simp
  qed
qed

subsection \<open>The bytes of the result\<close>

lemma sum_list_bounded:
  fixes f :: "'a \<Rightarrow> nat"
  assumes "\<And>x. x \<in> set xs \<Longrightarrow> f x \<le> k"
  shows "sum_list (map f xs) \<le> k * length xs"
  using assms by (induction xs) (simp_all add: add_mono)

lemma tileSum_le: "tileSum d w x0 x1 y0 y1 c \<le> 255 * ((y1 - y0) * (x1 - x0))"
proof -
  have byte: "unat (v :: byte) \<le> 255" for v
    using unsigned_less [of v, where 'a = nat] by simp
  have row: "(\<Sum>x\<leftarrow>[x0..<x1]. unat (d ! ((y * w + x) * 4 + c))) \<le> 255 * (x1 - x0)" for y
    using sum_list_bounded [of "[x0..<x1]" "\<lambda>x. unat (d ! ((y * w + x) * 4 + c))" 255] byte
    by simp
  have "tileSum d w x0 x1 y0 y1 c \<le> (255 * (x1 - x0)) * length [y0..<y1]"
    unfolding tileSum_def by (rule sum_list_bounded) (rule row)
  then show ?thesis by (simp add: mult_ac)
qed

lemma unat_tileByte:
  assumes "tx < min (tx + b) w" and "ty < min (ty + b) h"
  shows "unat (tileByte d b w h tx ty c) =
     roundedMean (tileSum d w tx (min (tx + b) w) ty (min (ty + b) h) c)
       ((min (ty + b) h - ty) * (min (tx + b) w - tx))"
proof -
  define n where "n = (min (ty + b) h - ty) * (min (tx + b) w - tx)"
  define s where "s = tileSum d w tx (min (tx + b) w) ty (min (ty + b) h) c"
  have n: "0 < n" using assms by (simp add: n_def)
  have "s \<le> 255 * n" unfolding s_def n_def by (rule tileSum_le)
  then have le: "roundedMean s n \<le> 255"
    by (rule roundedMean_le [OF n])
  have "tileByte d b w h tx ty c = toUint8Clamped (roundDiv (Num s) n)"
    by (simp only: tileByte_def n_def s_def)
  also have "\<dots> = of_nat (roundedMean s n)"
    using n le by (simp add: roundedMean_def)
  finally have "unat (tileByte d b w h tx ty c) = roundedMean s n"
    using le by (simp add: unat_of_nat)
  then show ?thesis by (simp only: n_def s_def)
qed

lemma tile_origin_le: "x div b * b \<le> (x::nat)"
  by (simp add: div_times_less_eq_dividend)

lemma tile_extent:
  fixes x b w :: nat
  assumes "x < w" and "0 < b"
  shows "x div b * b \<le> x" and "x < min (x div b * b + b) w"
    and "x div b * b < min (x div b * b + b) w"
proof -
  show le: "x div b * b \<le> x" by (rule tile_origin_le)
  have "x < x div b * b + b"
    using assms(2) dividend_less_times_div [of b x] by (simp add: mult.commute)
  with assms(1) show lt: "x < min (x div b * b + b) w" by simp
  from le lt show "x div b * b < min (x div b * b + b) w" by (rule le_less_trans)
qed

subsection \<open>The mosaic without a mask as the mosaic under a full mask\<close>

text \<open>
  \<open>_processMosaic\<close> does to the array what \<open>_processMosaicWithMask\<close> does under a
  mask that selects every pixel: the tile test succeeds at the first pixel and the
  masked fill writes every pixel.
\<close>

lemma processMosaicWithMask_pixels:
  assumes b: "0 < b" and len: "length d = w * h * 4"
  shows "\<exists>d'. processMosaicWithMask_y b w h md d 0 = Some d' \<and> length d' = length d \<and>
     (\<forall>x<w. \<forall>y<h. \<forall>c<4. d' ! ((y * w + x) * 4 + c) =
        (if c < 3 \<and> selected md ((y * w + x) * 4)
         then tileByte d b w h (x div b * b) (y div b * b) c
         else d ! ((y * w + x) * 4 + c)))"
proof -
  from processMosaicWithMask_y_spec [OF b len dvd_0_right, of md]
  obtain d' where d': "processMosaicWithMask_y b w h md d 0 = Some d'"
    and ld': "length d' = length d"
    and nth: "\<And>i. i < length d \<Longrightarrow> d' ! i =
        (if i mod 4 < 3 \<and> 0 \<le> (i div 4) div w \<and> selected md ((i div 4) * 4)
         then tileByte d b w h ((i div 4) mod w div b * b) ((i div 4) div w div b * b) (i mod 4)
         else d ! i)"
    by blast
  have "d' ! ((y * w + x) * 4 + c) =
        (if c < 3 \<and> selected md ((y * w + x) * 4)
         then tileByte d b w h (x div b * b) (y div b * b) c
         else d ! ((y * w + x) * 4 + c))"
    if x: "x < w" and y: "y < h" and c: "c < 4" for x y c
  proof -
    have i: "(y * w + x) * 4 + c < length d" using pix_lt [OF x y c] len by simp
    show ?thesis
      unfolding nth [OF i] pix_coords [OF x c] by simp
  qed
  with d' ld' show ?thesis by blast
qed

lemma selected_replicate: "selected (replicate n 255) i = (i < n)"
  by (auto simp: selected_def)

lemma hasSelectedPixels_all:
  assumes "x < w" and "y < h" and "0 < b"
  shows "hasSelectedPixels (replicate (w * h * 4) 255) x y b w h"
proof -
  have s: "selected (replicate (w * h * 4) 255) ((y * w + x) * 4)"
    using pix_lt [OF assms(1,2), of 0] by (simp add: selected_replicate)
  have "hasSelectedPixels_x (replicate (w * h * 4) 255) w y (min (x + b) w) x"
    by (subst hasSelectedPixels_x.simps) (use assms s in \<open>simp add: Let_def\<close>)
  then have "hasSelectedPixels_y (replicate (w * h * 4) 255) w x (min (x + b) w) (min (y + b) h) y"
    by (subst hasSelectedPixels_y.simps) (use assms in simp)
  then show ?thesis by (simp add: hasSelectedPixels_def Let_def)
qed

lemma fillBlockWithMask_x_all:
  assumes "endX \<le> w" and "y < h"
  shows "fillBlockWithMask_x d (replicate (w * h * 4) 255) w y endX x color =
         fillBlock_x d w y endX x color"
proof -
  obtain r g b where c: "color = (r, g, b)" by (cases color)
  have "fillBlockWithMask_x d (replicate (w * h * 4) 255) w y endX x (r, g, b) =
        fillBlock_x d w y endX x (r, g, b)"
  proof (induction "endX - x" arbitrary: x d)
    case 0
    then show ?case by (simp add: fillBlockWithMask_x.simps fillBlock_x.simps)
  next
    case (Suc k)
    then have lt: "x < endX" and k: "k = endX - Suc x" by simp_all
    have "x < w" using lt assms(1) by simp
    then have s: "selected (replicate (w * h * 4) 255) ((y * w + x) * 4)"
      using pix_lt [of x w y h 0] assms(2) by (simp add: selected_replicate)
    show ?case
      apply (subst fillBlockWithMask_x.simps)
      apply (subst fillBlock_x.simps)
      using lt s by (simp add: Let_def Suc.hyps(1) [OF k])
  qed
  then show ?thesis by (simp add: c)
qed

lemma fillBlockWithMask_y_all:
  assumes "endX \<le> w" and "endY \<le> h"
  shows "fillBlockWithMask_y d (replicate (w * h * 4) 255) w startX endX endY y color =
         fillBlock_y d w startX endX endY y color"
proof (induction "endY - y" arbitrary: y d)
  case 0
  then show ?case by (simp add: fillBlockWithMask_y.simps fillBlock_y.simps)
next
  case (Suc k)
  then have lt: "y < endY" and k: "k = endY - Suc y" by simp_all
  have y: "y < h" using lt assms(2) by simp
  show ?case
    apply (subst fillBlockWithMask_y.simps)
    apply (subst fillBlock_y.simps)
    using lt by (simp add: fillBlockWithMask_x_all [OF assms(1) y] Suc.hyps(1) [OF k])
qed

lemma processMosaic_x_all:
  assumes "0 < b" and "y < h"
  shows "processMosaic_x b w h y d x =
         processMosaicWithMask_x b w h (replicate (w * h * 4) 255) y d x"
proof (induction "w - x" arbitrary: x d rule: less_induct)
  case less
  show ?case
  proof (cases "x < w")
    case False
    then show ?thesis
      by (subst processMosaic_x.simps, subst processMosaicWithMask_x.simps) simp
  next
    case True
    have less': "w - (x + b) < w - x" using True assms(1) by arith
    have tile: "fillBlockWithMask d (replicate (w * h * 4) 255) x y b w h color =
                fillBlock d x y b w h color" for color
      by (simp add: fillBlockWithMask_def fillBlock_def Let_def fillBlockWithMask_y_all)
    show ?thesis
      apply (subst processMosaic_x.simps)
      apply (subst processMosaicWithMask_x.simps)
      using True
      by (simp add: Let_def hasSelectedPixels_all [OF True assms(2,1)] tile less.hyps [OF less'])
  qed
qed

lemma processMosaic_y_all:
  assumes "0 < b"
  shows "processMosaic_y b w h d y =
         processMosaicWithMask_y b w h (replicate (w * h * 4) 255) d y"
proof (induction "h - y" arbitrary: y d rule: less_induct)
  case less
  show ?case
  proof (cases "y < h")
    case False
    then show ?thesis
      by (subst processMosaic_y.simps, subst processMosaicWithMask_y.simps) simp
  next
    case True
    have less': "h - (y + b) < h - y" using True assms by arith
    show ?thesis
      apply (subst processMosaic_y.simps)
      apply (subst processMosaicWithMask_y.simps)
      using True
      by (simp add: processMosaic_x_all [OF assms True] less.hyps [OF less'] cong: Option.bind_cong)
  qed
qed

lemma sample_means:
  "roundedMean (tileSum (data sample_image) 2 0 2 0 1 0) 2 = 20"
  "roundedMean (tileSum (data sample_image) 2 0 2 0 1 1) 2 = 31"
  "roundedMean (tileSum (data sample_image) 2 0 2 0 1 2) 2 = 40"
  by code_simp+

subsection \<open>The masked mosaic\<close>

text \<open>
  C2.  For a raster \<open>R\<close> whose buffer has \<open>width * height * 4\<close> bytes, a mask \<open>M\<close> of
  the same dimensions and a block size of at least 1, \<open>_processMosaicWithMask\<close>
  returns, and the raster it leaves has the dimensions of \<open>R\<close>.  For the pixel
  \<open>(x, y)\<close>, whose tile has its origin at \<open>(tx, ty)\<close>, the multiples of the block size
  below \<open>x\<close> and \<open>y\<close>, and ends at the raster's edge or one block further: the alpha byte
  is that of \<open>R\<close>; when the pixel is selected (channel 0 of the mask above 127) each of
  its colour bytes is the mean of that channel over all pixels of the tile, selected or
  not, rounded to the nearest integer (within one half of the exact mean); when it is not
  selected its colour bytes are those of \<open>R\<close>; and when no pixel of the tile is selected,
  all four bytes are those of \<open>R\<close>.
\<close>

theorem processMosaicWithMask_correct:
  assumes "1 \<le> blockSize"
    and "length (data R) = width R * height R * 4"
    and "width M = width R" and "height M = height R"
    and "length (data M) = width M * height M * 4"
  shows "\<exists>out. processMosaicWithMask R blockSize M = Some out \<and>
     width out = width R \<and> height out = height R \<and> length (data out) = length (data R) \<and>
     (\<forall>x<width R. \<forall>y<height R.
        (let i = (y * width R + x) * 4;
             tx = x div blockSize * blockSize;
             ty = y div blockSize * blockSize;
             x1 = min (tx + blockSize) (width R);
             y1 = min (ty + blockSize) (height R);
             n = (y1 - ty) * (x1 - tx)
         in data out ! (i + 3) = data R ! (i + 3) \<and>
            (\<forall>c<3. if 127 < unat (data M ! i)
                   then unat (data out ! (i + c)) =
                          roundedMean (tileSum (data R) (width R) tx x1 ty y1 c) n \<and>
                        \<bar>real (unat (data out ! (i + c))) -
                           real (tileSum (data R) (width R) tx x1 ty y1 c) / real n\<bar> \<le> 1 / 2
                   else data out ! (i + c) = data R ! (i + c)) \<and>
            ((\<forall>x' y'. tx \<le> x' \<and> x' < x1 \<and> ty \<le> y' \<and> y' < y1 \<longrightarrow>
                 \<not> 127 < unat (data M ! ((y' * width R + x') * 4))) \<longrightarrow>
             (\<forall>c<4. data out ! (i + c) = data R ! (i + c)))))"
proof -
  let ?w = "width R" and ?h = "height R" and ?b = "blockSize" and ?d = "data R" and ?md = "data M"
  have b: "0 < ?b" using assms(1) by simp
  have len: "length ?d = ?w * ?h * 4" using assms(2) by simp
  have lmd: "length ?md = ?w * ?h * 4" using assms(3,4,5) by simp
  from processMosaicWithMask_pixels [OF b len, of ?md]
  obtain d' where d': "processMosaicWithMask_y ?b ?w ?h ?md ?d 0 = Some d'"
    and ld': "length d' = length ?d"
    and nth: "\<And>x y c. x < ?w \<Longrightarrow> y < ?h \<Longrightarrow> c < 4 \<Longrightarrow> d' ! ((y * ?w + x) * 4 + c) =
        (if c < 3 \<and> selected ?md ((y * ?w + x) * 4)
         then tileByte ?d ?b ?w ?h (x div ?b * ?b) (y div ?b * ?b) c
         else ?d ! ((y * ?w + x) * 4 + c))"
    by blast
  define out where "out = R\<lparr>data := d'\<rparr>"
  have o: "data out = d'" "width out = ?w" "height out = ?h"
    by (simp_all add: out_def)
  have res: "processMosaicWithMask R blockSize M = Some out"
    using d' by (simp add: processMosaicWithMask_def out_def)
  have pixel:
    "data out ! ((y * ?w + x) * 4 + 3) = ?d ! ((y * ?w + x) * 4 + 3) \<and>
     (\<forall>c<3. if 127 < unat (?md ! ((y * ?w + x) * 4))
            then unat (data out ! ((y * ?w + x) * 4 + c)) =
                   roundedMean (tileSum ?d ?w (x div ?b * ?b) (min (x div ?b * ?b + ?b) ?w)
                                  (y div ?b * ?b) (min (y div ?b * ?b + ?b) ?h) c)
                     ((min (y div ?b * ?b + ?b) ?h - y div ?b * ?b) *
                      (min (x div ?b * ?b + ?b) ?w - x div ?b * ?b)) \<and>
                 \<bar>real (unat (data out ! ((y * ?w + x) * 4 + c))) -
                    real (tileSum ?d ?w (x div ?b * ?b) (min (x div ?b * ?b + ?b) ?w)
                            (y div ?b * ?b) (min (y div ?b * ?b + ?b) ?h) c) /
                    real ((min (y div ?b * ?b + ?b) ?h - y div ?b * ?b) *
                          (min (x div ?b * ?b + ?b) ?w - x div ?b * ?b))\<bar> \<le> 1 / 2
            else data out ! ((y * ?w + x) * 4 + c) = ?d ! ((y * ?w + x) * 4 + c)) \<and>
     ((\<forall>x' y'. x div ?b * ?b \<le> x' \<and> x' < min (x div ?b * ?b + ?b) ?w \<and>
               y div ?b * ?b \<le> y' \<and> y' < min (y div ?b * ?b + ?b) ?h \<longrightarrow>
               \<not> 127 < unat (?md ! ((y' * ?w + x') * 4))) \<longrightarrow>
      (\<forall>c<4. data out ! ((y * ?w + x) * 4 + c) = ?d ! ((y * ?w + x) * 4 + c)))"
    if x: "x < ?w" and y: "y < ?h" for x y
    unfolding o(1)
  proof -
    let ?i = "(y * ?w + x) * 4"
    let ?tx = "x div ?b * ?b" and ?ty = "y div ?b * ?b"
    let ?n = "(min (?ty + ?b) ?h - ?ty) * (min (?tx + ?b) ?w - ?tx)"
    have sel: "selected ?md ?i = (127 < unat (?md ! ?i))"
      using pix_lt [OF x y, of 0] lmd by (simp add: selected_def)
    have n: "0 < ?n" using tile_extent(3) [OF x b] tile_extent(3) [OF y b] by simp
    have alpha: "d' ! (?i + 3) = ?d ! (?i + 3)" using nth [OF x y, of 3] by simp
    have rgb: "if 127 < unat (?md ! ?i)
            then unat (d' ! (?i + c)) =
                   roundedMean (tileSum ?d ?w ?tx (min (?tx + ?b) ?w) ?ty (min (?ty + ?b) ?h) c) ?n \<and>
                 \<bar>real (unat (d' ! (?i + c))) -
                    real (tileSum ?d ?w ?tx (min (?tx + ?b) ?w) ?ty (min (?ty + ?b) ?h) c) / real ?n\<bar>
                   \<le> 1 / 2
            else d' ! (?i + c) = ?d ! (?i + c)" if c: "c < 3" for c
    proof (cases "127 < unat (?md ! ?i)")
      case True
      have "d' ! (?i + c) = tileByte ?d ?b ?w ?h ?tx ?ty c"
        using nth [OF x y, of c] c sel True by simp
      then have u: "unat (d' ! (?i + c)) =
          roundedMean (tileSum ?d ?w ?tx (min (?tx + ?b) ?w) ?ty (min (?ty + ?b) ?h) c) ?n"
        by (simp only: unat_tileByte [OF tile_extent(3) [OF x b] tile_extent(3) [OF y b]])
      show ?thesis
        unfolding u using True roundedMean_nearest [OF n] by (simp only: if_True simp_thms)
    next
      case False
      then show ?thesis using nth [OF x y, of c] c sel by simp
    qed
    have none: "\<forall>c<4. d' ! (?i + c) = ?d ! (?i + c)"
      if t: "\<forall>x' y'. ?tx \<le> x' \<and> x' < min (?tx + ?b) ?w \<and> ?ty \<le> y' \<and> y' < min (?ty + ?b) ?h \<longrightarrow>
               \<not> 127 < unat (?md ! ((y' * ?w + x') * 4))"
    proof -
      from t tile_extent(1,2) [OF x b] tile_extent(1,2) [OF y b]
      have "\<not> 127 < unat (?md ! ?i)" by blast
      then show ?thesis using nth [OF x y] sel by simp
    qed
    from alpha rgb none
    show "d' ! (?i + 3) = ?d ! (?i + 3) \<and>
     (\<forall>c<3. if 127 < unat (?md ! ?i)
            then unat (d' ! (?i + c)) =
                   roundedMean (tileSum ?d ?w ?tx (min (?tx + ?b) ?w) ?ty (min (?ty + ?b) ?h) c) ?n \<and>
                 \<bar>real (unat (d' ! (?i + c))) -
                    real (tileSum ?d ?w ?tx (min (?tx + ?b) ?w) ?ty (min (?ty + ?b) ?h) c) / real ?n\<bar>
                   \<le> 1 / 2
            else d' ! (?i + c) = ?d ! (?i + c)) \<and>
     ((\<forall>x' y'. ?tx \<le> x' \<and> x' < min (?tx + ?b) ?w \<and> ?ty \<le> y' \<and> y' < min (?ty + ?b) ?h \<longrightarrow>
               \<not> 127 < unat (?md ! ((y' * ?w + x') * 4))) \<longrightarrow>
      (\<forall>c<4. d' ! (?i + c) = ?d ! (?i + c)))"
      by blast
  qed
  have lo: "length (data out) = length ?d" using ld' o(1) by simp
  show ?thesis
    unfolding Let_def
    using res o(2,3) lo pixel by blast
qed

theorem processMosaicWithMask_correct_witness:
  "(1::nat) \<le> 5 \<and>
   length (data sample_image) = width sample_image * height sample_image * 4 \<and>
   width sample_mask = width sample_image \<and> height sample_mask = height sample_image \<and>
   length (data sample_mask) = width sample_mask * height sample_mask * 4 \<and>
   (\<exists>out. processMosaicWithMask sample_image 5 sample_mask = Some out \<and>
      width out = 2 \<and> height out = 1 \<and>
      data out ! 0 = 10 \<and> data out ! 1 = 20 \<and> data out ! 2 = 30 \<and> data out ! 3 = 255 \<and>
      unat (data out ! 4) = 20 \<and> unat (data out ! 5) = 31 \<and> unat (data out ! 6) = 40 \<and>
      data out ! 7 = 200)"
proof -
  have h1: "(1::nat) \<le> 5" by simp
  have h2: "length (data sample_image) = width sample_image * height sample_image * 4"
    by (simp add: sample_image_def)
  have h3: "width sample_mask = width sample_image"
    and h4: "height sample_mask = height sample_image"
    and h5: "length (data sample_mask) = width sample_mask * height sample_mask * 4"
    by (simp_all add: sample_image_def sample_mask_def)
  from processMosaicWithMask_correct [OF h1 h2 h3 h4 h5]
  obtain out where o: "processMosaicWithMask sample_image 5 sample_mask = Some out"
    "width out = width sample_image" "height out = height sample_image"
    and px: "\<forall>x<width sample_image. \<forall>y<height sample_image.
        (let i = (y * width sample_image + x) * 4;
             tx = x div 5 * 5;
             ty = y div 5 * 5;
             x1 = min (tx + 5) (width sample_image);
             y1 = min (ty + 5) (height sample_image);
             n = (y1 - ty) * (x1 - tx)
         in data out ! (i + 3) = data sample_image ! (i + 3) \<and>
            (\<forall>c<3. if 127 < unat (data sample_mask ! i)
                   then unat (data out ! (i + c)) =
                          roundedMean (tileSum (data sample_image) (width sample_image) tx x1 ty y1 c) n \<and>
                        \<bar>real (unat (data out ! (i + c))) -
                           real (tileSum (data sample_image) (width sample_image) tx x1 ty y1 c) / real n\<bar>
                          \<le> 1 / 2
                   else data out ! (i + c) = data sample_image ! (i + c)) \<and>
            ((\<forall>x' y'. tx \<le> x' \<and> x' < x1 \<and> ty \<le> y' \<and> y' < y1 \<longrightarrow>
                 \<not> 127 < unat (data sample_mask ! ((y' * width sample_image + x') * 4))) \<longrightarrow>
             (\<forall>c<4. data out ! (i + c) = data sample_image ! (i + c))))"
    by blast
  have wh: "width sample_image = 2" "height sample_image = 1"
    by (simp_all add: sample_image_def)
  have m: "\<not> 127 < unat (data sample_mask ! 0)" "127 < unat (data sample_mask ! 4)"
    by (simp_all add: sample_mask_def)
  from px [rule_format, of 0 0] m(1)
  have a0: "data out ! 3 = data sample_image ! 3"
    and c0: "\<And>c. c < 3 \<Longrightarrow> data out ! (0 + c) = data sample_image ! (0 + c)"
    by (simp_all add: wh Let_def)
  from px [rule_format, of 1 0] m(2)
  have a1: "data out ! 7 = data sample_image ! 7"
    and c1: "\<And>c. c < 3 \<Longrightarrow> unat (data out ! (4 + c)) =
               roundedMean (tileSum (data sample_image) 2 0 2 0 1 c) 2"
    by (simp_all add: wh Let_def)
  have "unat (data out ! (4 + 0)) = 20" "unat (data out ! (4 + 1)) = 31"
    "unat (data out ! (4 + 2)) = 40"
    unfolding sample_means [symmetric] by (rule c1, simp)+
  moreover have img: "data sample_image ! 0 = 10" "data sample_image ! 1 = 20"
    "data sample_image ! 2 = 30" "data sample_image ! 3 = 255" "data sample_image ! 7 = 200"
    by (simp_all add: sample_image_def)
  moreover have "data out ! (0 + 0) = data sample_image ! (0 + 0)"
    "data out ! (0 + 1) = data sample_image ! (0 + 1)"
    "data out ! (0 + 2) = data sample_image ! (0 + 2)"
    by (rule c0, simp)+
  then have "data out ! 0 = data sample_image ! 0" "data out ! 1 = data sample_image ! 1"
    "data out ! 2 = data sample_image ! 2"
    by (simp_all only: add_0)
  moreover note a0 a1
  ultimately show ?thesis
    using o h1 h2 h3 h4 h5 by (simp add: wh)
qed

subsection \<open>The mosaic without a mask\<close>

text \<open>
  C1.  For a raster \<open>R\<close> whose buffer has \<open>width * height * 4\<close> bytes and a block size
  \<open>b\<close> of at least 1, \<open>_processMosaic\<close> returns, and the raster it leaves has the
  dimensions of \<open>R\<close>.  The pixel \<open>(x, y)\<close> lies in the tile with origin
  \<open>(x div b * b, y div b * b)\<close>, which is \<open>b\<close> wide and high except where the raster's
  right or lower edge cuts it off; each of its colour bytes is the mean of that channel
  over the tile, rounded to the nearest integer (within one half of the exact mean),
  the same for every pixel of the tile; its alpha byte is that of \<open>R\<close>.
\<close>

theorem processMosaic_correct:
  assumes "1 \<le> blockSize"
    and "length (data R) = width R * height R * 4"
  shows "\<exists>out. processMosaic R blockSize = Some out \<and>
     width out = width R \<and> height out = height R \<and> length (data out) = length (data R) \<and>
     (\<forall>x<width R. \<forall>y<height R.
        (let i = (y * width R + x) * 4;
             tx = x div blockSize * blockSize;
             ty = y div blockSize * blockSize;
             x1 = min (tx + blockSize) (width R);
             y1 = min (ty + blockSize) (height R);
             n = (y1 - ty) * (x1 - tx)
         in tx \<le> x \<and> x < x1 \<and> ty \<le> y \<and> y < y1 \<and>
            data out ! (i + 3) = data R ! (i + 3) \<and>
            (\<forall>c<3. unat (data out ! (i + c)) =
                     roundedMean (tileSum (data R) (width R) tx x1 ty y1 c) n \<and>
                   \<bar>real (unat (data out ! (i + c))) -
                      real (tileSum (data R) (width R) tx x1 ty y1 c) / real n\<bar> \<le> 1 / 2)))"
proof -
  let ?w = "width R" and ?h = "height R" and ?b = "blockSize" and ?d = "data R"
  let ?md = "replicate (?w * ?h * 4) (255 :: byte)"
  have b: "0 < ?b" using assms(1) by simp
  have len: "length ?d = ?w * ?h * 4" using assms(2) by simp
  from processMosaicWithMask_pixels [OF b len, of ?md]
  obtain d' where d': "processMosaicWithMask_y ?b ?w ?h ?md ?d 0 = Some d'"
    and ld': "length d' = length ?d"
    and nth: "\<And>x y c. x < ?w \<Longrightarrow> y < ?h \<Longrightarrow> c < 4 \<Longrightarrow> d' ! ((y * ?w + x) * 4 + c) =
        (if c < 3 \<and> selected ?md ((y * ?w + x) * 4)
         then tileByte ?d ?b ?w ?h (x div ?b * ?b) (y div ?b * ?b) c
         else ?d ! ((y * ?w + x) * 4 + c))"
    by blast
  define out where "out = R\<lparr>data := d'\<rparr>"
  have o: "data out = d'" "width out = ?w" "height out = ?h"
    by (simp_all add: out_def)
  have res: "processMosaic R blockSize = Some out"
    using d' by (simp add: processMosaic_def out_def processMosaic_y_all [OF b])
  have pixel:
    "x div ?b * ?b \<le> x \<and> x < min (x div ?b * ?b + ?b) ?w \<and>
     y div ?b * ?b \<le> y \<and> y < min (y div ?b * ?b + ?b) ?h \<and>
     data out ! ((y * ?w + x) * 4 + 3) = ?d ! ((y * ?w + x) * 4 + 3) \<and>
     (\<forall>c<3. unat (data out ! ((y * ?w + x) * 4 + c)) =
               roundedMean (tileSum ?d ?w (x div ?b * ?b) (min (x div ?b * ?b + ?b) ?w)
                              (y div ?b * ?b) (min (y div ?b * ?b + ?b) ?h) c)
                 ((min (y div ?b * ?b + ?b) ?h - y div ?b * ?b) *
                  (min (x div ?b * ?b + ?b) ?w - x div ?b * ?b)) \<and>
             \<bar>real (unat (data out ! ((y * ?w + x) * 4 + c))) -
                real (tileSum ?d ?w (x div ?b * ?b) (min (x div ?b * ?b + ?b) ?w)
                        (y div ?b * ?b) (min (y div ?b * ?b + ?b) ?h) c) /
                real ((min (y div ?b * ?b + ?b) ?h - y div ?b * ?b) *
                      (min (x div ?b * ?b + ?b) ?w - x div ?b * ?b))\<bar> \<le> 1 / 2)"
    if x: "x < ?w" and y: "y < ?h" for x y
    unfolding o(1)
  proof -
    let ?i = "(y * ?w + x) * 4"
    let ?tx = "x div ?b * ?b" and ?ty = "y div ?b * ?b"
    let ?n = "(min (?ty + ?b) ?h - ?ty) * (min (?tx + ?b) ?w - ?tx)"
    have sel: "selected ?md ?i"
      using pix_lt [OF x y, of 0] by (simp add: selected_replicate)
    have n: "0 < ?n" using tile_extent(3) [OF x b] tile_extent(3) [OF y b] by simp
    have alpha: "d' ! (?i + 3) = ?d ! (?i + 3)" using nth [OF x y, of 3] by simp
    have rgb: "unat (d' ! (?i + c)) =
                 roundedMean (tileSum ?d ?w ?tx (min (?tx + ?b) ?w) ?ty (min (?ty + ?b) ?h) c) ?n \<and>
               \<bar>real (unat (d' ! (?i + c))) -
                  real (tileSum ?d ?w ?tx (min (?tx + ?b) ?w) ?ty (min (?ty + ?b) ?h) c) / real ?n\<bar>
                 \<le> 1 / 2" if c: "c < 3" for c
    proof -
      have "d' ! (?i + c) = tileByte ?d ?b ?w ?h ?tx ?ty c"
        using nth [OF x y, of c] c sel by simp
      then have u: "unat (d' ! (?i + c)) =
          roundedMean (tileSum ?d ?w ?tx (min (?tx + ?b) ?w) ?ty (min (?ty + ?b) ?h) c) ?n"
        by (simp only: unat_tileByte [OF tile_extent(3) [OF x b] tile_extent(3) [OF y b]])
      show ?thesis
        unfolding u using roundedMean_nearest [OF n] by (simp only: simp_thms)
    qed
    from alpha rgb tile_extent(1,2) [OF x b] tile_extent(1,2) [OF y b]
    show "?tx \<le> x \<and> x < min (?tx + ?b) ?w \<and> ?ty \<le> y \<and> y < min (?ty + ?b) ?h \<and>
     d' ! (?i + 3) = ?d ! (?i + 3) \<and>
     (\<forall>c<3. unat (d' ! (?i + c)) =
               roundedMean (tileSum ?d ?w ?tx (min (?tx + ?b) ?w) ?ty (min (?ty + ?b) ?h) c) ?n \<and>
             \<bar>real (unat (d' ! (?i + c))) -
                real (tileSum ?d ?w ?tx (min (?tx + ?b) ?w) ?ty (min (?ty + ?b) ?h) c) / real ?n\<bar>
               \<le> 1 / 2)"
      by blast
  qed
  have lo: "length (data out) = length ?d" using ld' o(1) by simp
  show ?thesis
    unfolding Let_def
    using res o(2,3) lo pixel by blast
qed

theorem processMosaic_correct_witness:
  "(1::nat) \<le> 5 \<and>
   length (data sample_image) = width sample_image * height sample_image * 4 \<and>
   (\<exists>out. processMosaic sample_image 5 = Some out \<and> width out = 2 \<and> height out = 1 \<and>
      unat (data out ! 4) = 20 \<and> unat (data out ! 5) = 31 \<and> unat (data out ! 6) = 40 \<and>
      data out ! 7 = 200)"
proof -
  have h1: "(1::nat) \<le> 5" by simp
  have h2: "length (data sample_image) = width sample_image * height sample_image * 4"
    by (simp add: sample_image_def)
  from processMosaic_correct [OF h1 h2]
  obtain out where o: "processMosaic sample_image 5 = Some out"
    "width out = width sample_image" "height out = height sample_image"
    and px: "\<forall>x<width sample_image. \<forall>y<height sample_image.
        (let i = (y * width sample_image + x) * 4;
             tx = x div 5 * 5;
             ty = y div 5 * 5;
             x1 = min (tx + 5) (width sample_image);
             y1 = min (ty + 5) (height sample_image);
             n = (y1 - ty) * (x1 - tx)
         in tx \<le> x \<and> x < x1 \<and> ty \<le> y \<and> y < y1 \<and>
            data out ! (i + 3) = data sample_image ! (i + 3) \<and>
            (\<forall>c<3. unat (data out ! (i + c)) =
                     roundedMean (tileSum (data sample_image) (width sample_image) tx x1 ty y1 c) n \<and>
                   \<bar>real (unat (data out ! (i + c))) -
                      real (tileSum (data sample_image) (width sample_image) tx x1 ty y1 c) / real n\<bar>
                     \<le> 1 / 2))"
    by blast
  have wh: "width sample_image = 2" "height sample_image = 1"
    by (simp_all add: sample_image_def)
  from px [rule_format, of 1 0]
  have a: "data out ! 7 = data sample_image ! 7"
    and c: "\<And>c. c < 3 \<Longrightarrow> unat (data out ! (4 + c)) =
               roundedMean (tileSum (data sample_image) 2 0 2 0 1 c) 2"
    by (simp_all add: wh Let_def)
  have "unat (data out ! (4 + 0)) = 20" "unat (data out ! (4 + 1)) = 31"
    "unat (data out ! (4 + 2)) = 40"
    unfolding sample_means [symmetric] by (rule c, simp)+
  with a o h1 h2 show ?thesis
    by (simp add: wh) (simp add: sample_image_def)
qed

section \<open>Properties of the history\<close>

subsection \<open>The index stays in range\<close>

lemma indexInRange_new: "indexInRange (newHistoryManager n)"
  by (simp add: indexInRange_def newHistoryManager_def)

lemma indexInRange_clear: "indexInRange (clear m)"
  by (simp add: indexInRange_def clear_def)

lemma indexInRange_undo: "indexInRange m \<Longrightarrow> indexInRange (fst (snd (undo st m)))"
  by (auto simp: indexInRange_def undo_def canUndo_def Let_def split: option.splits sum.splits)

lemma indexInRange_redo: "indexInRange m \<Longrightarrow> indexInRange (fst (snd (redo st m)))"
  by (auto simp: indexInRange_def redo_def canRedo_def Let_def split: option.splits sum.splits)

lemma indexInRange_saveState:
  "indexInRange m \<Longrightarrow> indexInRange (snd (saveState st m img name now))"
  by (auto simp: indexInRange_def saveState_def cloneImageData_def slice0_def Let_def min_def)

subsection \<open>Clearing\<close>

lemma request_cleared:
  "history m = [] \<Longrightarrow> currentIndex m = - 1 \<Longrightarrow>
   \<exists>m'. request q (st, m) = (st, m') \<and> history m' = [] \<and> currentIndex m' = - 1"
  by (cases q) (simp_all add: undo_def redo_def canUndo_def canRedo_def clear_def)

lemma requests_cleared:
  "history m = [] \<Longrightarrow> currentIndex m = - 1 \<Longrightarrow>
   \<exists>m'. fold request qs (st, m) = (st, m') \<and> history m' = [] \<and> currentIndex m' = - 1"
proof (induction qs arbitrary: m)
  case Nil
  then show ?case by simp
next
  case (Cons q qs)
  from request_cleared [OF Cons.prems, of q st]
  obtain m1 where m1: "request q (st, m) = (st, m1)" "history m1 = []" "currentIndex m1 = - 1"
    by blast
  from Cons.IH [OF m1(2,3)] m1(1) show ?case by simp
qed

text \<open>
  C10.  After \<open>clear()\<close> the history is empty and \<open>currentIndex\<close> is -1; \<open>canUndo()\<close> and
  \<open>canRedo()\<close> are false and \<open>getCurrentActionName()\<close> is null, and this stays so after
  any further requests other than a push (undo, redo, clear), which also leave the
  store untouched.
\<close>

theorem clear_empties_history:
  "history (clear m) = [] \<and> currentIndex (clear m) = - 1 \<and>
   \<not> canUndo (clear m) \<and> \<not> canRedo (clear m) \<and> getCurrentActionName (clear m) = None \<and>
   (\<exists>m'. fold request qs (st, clear m) = (st, m') \<and>
         history m' = [] \<and> currentIndex m' = - 1 \<and>
         \<not> canUndo m' \<and> \<not> canRedo m' \<and> getCurrentActionName m' = None \<and>
         undo st m' = (st, m', Inr None) \<and> redo st m' = (st, m', Inr None))"
proof -
  have c: "history (clear m) = []" "currentIndex (clear m) = - 1"
    by (simp_all add: clear_def)
  from requests_cleared [OF c, of qs st]
  obtain m' where m': "fold request qs (st, clear m) = (st, m')" "history m' = []"
    "currentIndex m' = - 1" by blast
  have "\<not> canUndo m' \<and> \<not> canRedo m' \<and> getCurrentActionName m' = None \<and>
        undo st m' = (st, m', Inr None) \<and> redo st m' = (st, m', Inr None)"
    using m'(2,3) by (simp add: canUndo_def canRedo_def getCurrentActionName_def undo_def redo_def)
  with m' c show ?thesis
    by (simp add: canUndo_def canRedo_def getCurrentActionName_def)
qed


subsection \<open>Pushing\<close>

lemma lastN_lastN_append: "lastN n (lastN n xs @ ys) = lastN n (xs @ ys)"
proof (cases "length xs \<le> n")
  case True
  then show ?thesis by (simp add: lastN_def)
next
  case False
  then have "length xs + length ys - (length xs - n + n) + (length xs - n)
             = length xs + length ys - n" by arith
  with False show ?thesis by (simp add: lastN_def)
qed

lemma lastN_snoc:
  "length xs \<le> n \<Longrightarrow>
   lastN n (xs @ [x]) = (if n < length (xs @ [x]) then tl (xs @ [x]) else xs @ [x])"
  by (cases xs) (auto simp: lastN_def Suc_diff_le)

lemma length_lastN: "length (lastN n xs) = min n (length xs)"
  by (auto simp: lastN_def)


lemma slice0_take: "- 1 \<le> e - 1 \<Longrightarrow> slice0 xs e = take (nat e) xs"
  by (auto simp: slice0_def min_def)

lemma saveState_general:
  assumes "- 1 \<le> currentIndex m" and "img < length st"
  shows "saveState st m img name now =
     (st @ [st ! img],
      (let pushed = take (nat (currentIndex m + 1)) (history m) @
                    [\<lparr>imageData = length st, actionName = name, timestamp = now\<rparr>]
       in if length pushed > maxHistorySize m
          then m\<lparr>history := tl pushed, currentIndex := int (length pushed) - 2\<rparr>
          else m\<lparr>history := pushed, currentIndex := int (length pushed) - 1\<rparr>))"
  using assms
  by (auto simp: saveState_def cloneImageData_def Let_def slice0_take)

lemma saveState_at_end:
  assumes "currentIndex m = int (length (history m)) - 1" and "img < length st"
    and "length (history m) \<le> maxHistorySize m"
  shows "saveState st m img name now =
     (st @ [st ! img],
      m\<lparr>history := lastN (maxHistorySize m)
           (history m @ [\<lparr>imageData = length st, actionName = name, timestamp = now\<rparr>]),
        currentIndex := int (length (lastN (maxHistorySize m)
           (history m @ [\<lparr>imageData = length st, actionName = name, timestamp = now\<rparr>]))) - 1\<rparr>)"
proof -
  let ?e = "\<lparr>imageData = length st, actionName = name, timestamp = now\<rparr>"
  have t: "take (nat (currentIndex m + 1)) (history m) = history m"
    using assms(1) by simp
  have c: "- 1 \<le> currentIndex m" using assms(1) by simp
  show ?thesis
    unfolding saveState_general [OF c assms(2)] t Let_def lastN_snoc [OF assms(3)]
    by (auto simp: tl_append split: list.splits)
qed


lemma entries_Cons:
  "entries base ((img, name, now) # ps) =
     \<lparr>imageData = base, actionName = name, timestamp = now\<rparr> # entries (Suc base) ps"
  by (simp add: entries_def)

lemma length_entries: "length (entries base ps) = length ps"
  by (simp add: entries_def)

lemma saveStates_at_end:
  assumes "currentIndex m = int (length (history m)) - 1"
    and "length (history m) \<le> maxHistorySize m"
    and "\<forall>p \<in> set ps. fst p < length st"
  shows "saveStates ps (st, m) =
     (st @ map (\<lambda>p. st ! fst p) ps,
      m\<lparr>history := lastN (maxHistorySize m) (history m @ entries (length st) ps),
        currentIndex :=
          int (length (lastN (maxHistorySize m) (history m @ entries (length st) ps))) - 1\<rparr>)"
  using assms
proof (induction ps arbitrary: st m)
  case Nil
  then show ?case by (simp add: entries_def lastN_def)
next
  case (Cons p ps)
  obtain img name now where p: "p = (img, name, now)" by (cases p) auto
  let ?e = "\<lparr>imageData = length st, actionName = name, timestamp = now\<rparr>"
  let ?st1 = "st @ [st ! img]"
  let ?m1 = "m\<lparr>history := lastN (maxHistorySize m) (history m @ [?e]),
        currentIndex := int (length (lastN (maxHistorySize m) (history m @ [?e]))) - 1\<rparr>"
  have img: "img < length st" using Cons.prems(3) p by simp
  have s1: "saveState st m img name now = (?st1, ?m1)"
    by (rule saveState_at_end [OF Cons.prems(1) img Cons.prems(2)])
  have a1: "currentIndex ?m1 = int (length (history ?m1)) - 1" by simp
  have a2: "length (history ?m1) \<le> maxHistorySize ?m1" by (simp add: length_lastN)
  have a3: "\<forall>q \<in> set ps. fst q < length ?st1" using Cons.prems(3) by auto
  have same: "map (\<lambda>q. ?st1 ! fst q) ps = map (\<lambda>q. st ! fst q) ps"
    using Cons.prems(3) by (auto simp: nth_append)
  show ?case
    unfolding p saveStates.simps s1 Cons.IH [OF a1 a2 a3] same
    by (simp add: entries_Cons lastN_lastN_append)
qed

text \<open>
  C3.  A push on a manager whose \<open>currentIndex\<close> is at least -1 (as in every
  state the class reaches), of a live raster:
  the entries after \<open>currentIndex\<close> are dropped, a clone of the raster is appended
  and \<open>currentIndex\<close> moves to the last index; when the length then exceeds
  \<open>maxHistorySize\<close> the entry at index 0 is removed and \<open>currentIndex\<close> decremented.
  The clone is a new object holding the raster's bytes, and a later change of the raster
  given does not reach it.  Pushing \<open>maxSize + k\<close> entries on a new manager leaves
  exactly \<open>maxSize\<close> entries, the most recent ones, with \<open>currentIndex\<close> at
  \<open>maxSize - 1\<close>.
\<close>

theorem saveState_bounded_push:
  "(- 1 \<le> currentIndex m \<and> img < length st \<longrightarrow>
      (\<exists>st' m'. saveState st m img name now = (st', m') \<and>
         st' = st @ [st ! img] \<and>
         (\<forall>x. (st'[img := x]) ! length st = st ! img) \<and>
         (let pushed = take (nat (currentIndex m + 1)) (history m) @
                       [\<lparr>imageData = length st, actionName = name, timestamp = now\<rparr>]
          in if length pushed > maxHistorySize m
             then history m' = tl pushed \<and> currentIndex m' = int (length pushed) - 1 - 1
             else history m' = pushed \<and> currentIndex m' = int (length pushed) - 1) \<and>
         currentIndex m' = int (length (history m')) - 1 \<and>
         maxHistorySize m' = maxHistorySize m)) \<and>
   ((\<forall>p \<in> set ps. fst p < length st) \<and> length ps = maxSize + k \<longrightarrow>
      (\<exists>st' m'. saveStates ps (st, newHistoryManager maxSize) = (st', m') \<and>
         length (history m') = maxSize \<and>
         history m' = drop k (entries (length st) ps) \<and>
         map (\<lambda>e. st' ! imageData e) (history m') = drop k (map (\<lambda>p. st ! fst p) ps) \<and>
         currentIndex m' = int maxSize - 1))"
proof (intro conjI impI)
  assume a: "- 1 \<le> currentIndex m \<and> img < length st"
  then have c: "- 1 \<le> currentIndex m" and i: "img < length st" by simp_all
  show "\<exists>st' m'. saveState st m img name now = (st', m') \<and>
         st' = st @ [st ! img] \<and>
         (\<forall>x. (st'[img := x]) ! length st = st ! img) \<and>
         (let pushed = take (nat (currentIndex m + 1)) (history m) @
                       [\<lparr>imageData = length st, actionName = name, timestamp = now\<rparr>]
          in if length pushed > maxHistorySize m
             then history m' = tl pushed \<and> currentIndex m' = int (length pushed) - 1 - 1
             else history m' = pushed \<and> currentIndex m' = int (length pushed) - 1) \<and>
         currentIndex m' = int (length (history m')) - 1 \<and>
         maxHistorySize m' = maxHistorySize m"
    unfolding saveState_general [OF c i]
    using i by (auto simp: Let_def nth_append)
next
  assume b: "(\<forall>p \<in> set ps. fst p < length st) \<and> length ps = maxSize + k"
  let ?m0 = "newHistoryManager maxSize"
  have a1: "currentIndex ?m0 = int (length (history ?m0)) - 1"
    and a2: "length (history ?m0) \<le> maxHistorySize ?m0"
    by (simp_all add: newHistoryManager_def)
  have a3: "\<forall>p \<in> set ps. fst p < length st" using b by simp
  have h: "lastN maxSize (entries (length st) ps) = drop k (entries (length st) ps)"
    using b by (simp add: lastN_def length_entries)
  have nth: "map (\<lambda>e. (st @ map (\<lambda>p. st ! fst p) ps) ! imageData e) (entries (length st) ps)
             = map (\<lambda>p. st ! fst p) ps"
    by (rule nth_equalityI)
      (auto simp: entries_def nth_enumerate_eq nth_append split: prod.splits)
  show "\<exists>st' m'. saveStates ps (st, newHistoryManager maxSize) = (st', m') \<and>
         length (history m') = maxSize \<and>
         history m' = drop k (entries (length st) ps) \<and>
         map (\<lambda>e. st' ! imageData e) (history m') = drop k (map (\<lambda>p. st ! fst p) ps) \<and>
         currentIndex m' = int maxSize - 1"
    unfolding saveStates_at_end [OF a1 a2 a3]
    using b h nth
    by (simp add: newHistoryManager_def length_entries drop_map [symmetric])
qed

theorem saveState_bounded_push_witness:
  "(\<exists>st' m'. saveState sample_store sample_history 0 ''Reset to Original'' 3 = (st', m') \<and>
       map actionName (history m') = [''Mosaic Applied'', ''Reset to Original''] \<and>
       currentIndex m' = 1) \<and>
   (\<exists>st' m'. saveStates sample_pushes (sample_store, newHistoryManager 2) = (st', m') \<and>
       map actionName (history m') = [''Mosaic Applied'', ''Reset to Original''] \<and>
       map (\<lambda>e. data (st' ! imageData e)) (history m') = [[9, 8, 7, 255], [1, 2, 3, 255]] \<and>
       currentIndex m' = 1)"
  using saveState_bounded_push [of sample_history 0 sample_store "''Reset to Original''" 3
      sample_pushes 2 1]
  by (auto simp: sample_store_def sample_history_def sample_pushes_def entries_def Let_def)

subsection \<open>Undo and redo\<close>

text \<open>
  C4.  When undo is possible (\<open>currentIndex > 0\<close>) on a manager whose index is
  inside the history (as in every state the class reaches) and whose entries are live, \<open>undo()\<close> followed by \<open>redo()\<close>
  returns a new raster with the bytes, width and height of the entry that was current
  before the undo, and \<open>currentIndex\<close> and the history are as before.
\<close>

theorem undo_redo_roundtrip:
  assumes "canUndo m" and "currentIndex m < int (length (history m))"
    and "\<forall>e \<in> set (history m). imageData e < length st"
  shows "\<exists>st1 m1 c1 st2 m2 c2.
     undo st m = (st1, m1, Inr (Some c1)) \<and> redo st1 m1 = (st2, m2, Inr (Some c2)) \<and>
     c2 < length st2 \<and> c2 \<notin> imageData ` set (history m2) \<and>
     data (st2 ! c2) = data (st ! imageData (history m ! nat (currentIndex m))) \<and>
     width (st2 ! c2) = width (st ! imageData (history m ! nat (currentIndex m))) \<and>
     height (st2 ! c2) = height (st ! imageData (history m ! nat (currentIndex m))) \<and>
     history m2 = history m \<and> currentIndex m2 = currentIndex m"
proof -
  let ?i = "nat (currentIndex m)"
  have pos: "0 < currentIndex m" using assms(1) by (simp add: canUndo_def)
  have i: "?i < length (history m)" "?i - 1 < length (history m)" using assms(2) pos by auto
  have v: "imageData (history m ! ?i) < length st" "imageData (history m ! (?i - 1)) < length st"
    using assms(3) i by auto
  have n1: "nat (currentIndex m - 1) = ?i - 1" using pos by simp
  let ?st1 = "st @ [st ! imageData (history m ! (?i - 1))]"
  let ?m1 = "m\<lparr>currentIndex := currentIndex m - 1\<rparr>"
  have u: "undo st m = (?st1, ?m1, Inr (Some (length st)))"
    using assms(1,2) pos v i
    by (simp add: undo_def at_index_def cloneImageData_def n1)
  let ?st2 = "?st1 @ [?st1 ! imageData (history m ! ?i)]"
  have r: "redo ?st1 ?m1 = (?st2, m, Inr (Some (length ?st1)))"
    using assms(2) pos v i
    by (simp add: redo_def canRedo_def at_index_def cloneImageData_def)
  have fresh: "length ?st1 \<notin> imageData ` set (history m)"
    using assms(3) by auto
  have same: "?st2 ! length ?st1 = st ! imageData (history m ! ?i)"
    using v by (simp add: nth_append)
  show ?thesis
    using u r fresh same by (intro exI conjI) (assumption | simp)+
qed

theorem undo_redo_roundtrip_witness:
  "canUndo sample_history \<and>
   (\<exists>st1 m1 c1 st2 m2 c2.
      undo sample_store sample_history = (st1, m1, Inr (Some c1)) \<and>
      redo st1 m1 = (st2, m2, Inr (Some c2)) \<and>
      data (st2 ! c2) = [9, 8, 7, 255] \<and> width (st2 ! c2) = 1 \<and> height (st2 ! c2) = 1 \<and>
      currentIndex m2 = 1)"
  using undo_redo_roundtrip [of sample_history sample_store]
  by (auto simp: sample_store_def sample_history_def canUndo_def)

section \<open>Properties of the selection\<close>

subsection \<open>Drag gestures\<close>

lemma moves_rectangle:
  "isSelecting s \<Longrightarrow> selectionMode s = ''rectangle'' \<Longrightarrow> currentPoint s = Some C \<Longrightarrow>
   fold handleMouseMove ps s = s\<lparr>currentPoint := Some (last (C # ps))\<rparr>"
proof (induction ps arbitrary: s C)
  case Nil
  then show ?case by simp
next
  case (Cons p ps)
  let ?s1 = "handleMouseMove p s"
  have s1: "?s1 = s\<lparr>currentPoint := Some p\<rparr>"
    using Cons.prems by (simp add: handleMouseMove_def)
  have "fold handleMouseMove ps ?s1 = ?s1\<lparr>currentPoint := Some (last (p # ps))\<rparr>"
    by (rule Cons.IH) (simp_all add: s1 Cons.prems)
  then show ?case by (simp add: s1)
qed

lemma moves_freehand:
  "isSelecting s \<Longrightarrow> selectionMode s = ''freehand'' \<Longrightarrow> currentPoint s = Some C \<Longrightarrow>
   fold handleMouseMove ps s =
     s\<lparr>currentPoint := Some (last (C # ps)), selectionPath := selectionPath s @ ps\<rparr>"
proof (induction ps arbitrary: s C)
  case Nil
  then show ?case by simp
next
  case (Cons p ps)
  let ?s1 = "handleMouseMove p s"
  have s1: "?s1 = s\<lparr>currentPoint := Some p, selectionPath := selectionPath s @ [p]\<rparr>"
    using Cons.prems by (simp add: handleMouseMove_def)
  have "fold handleMouseMove ps ?s1 =
          ?s1\<lparr>currentPoint := Some (last (p # ps)), selectionPath := selectionPath ?s1 @ ps\<rparr>"
    by (rule Cons.IH) (simp_all add: s1 Cons.prems)
  then show ?case by (simp add: s1)
qed

lemma drag_rectangle:
  assumes "selectionMode s = ''rectangle''"
  shows "drag S ps s =
     fst (finalizeRectangleSelection
       (s\<lparr>startPoint := Some S, currentPoint := Some (last (S # ps)),
          isSelecting := False, isConfirmed := False\<rparr>))"
proof -
  let ?d = "handleMouseDown 0 S s"
  have d: "?d = s\<lparr>startPoint := Some S, currentPoint := Some S,
                   isSelecting := True, isConfirmed := False\<rparr>"
    using assms by (simp add: handleMouseDown_def)
  have "fold handleMouseMove ps ?d = ?d\<lparr>currentPoint := Some (last (S # ps))\<rparr>"
    by (rule moves_rectangle) (simp_all add: d assms)
  then show ?thesis
    using assms by (cases s) (simp add: drag_def handleMouseDown_def handleMouseUp_def)
qed

lemma drag_freehand:
  assumes "selectionMode s = ''freehand''"
  shows "drag S ps s =
     fst (finalizeFreehandSelection
       (s\<lparr>startPoint := Some S, currentPoint := Some (last (S # ps)),
          isSelecting := False, isConfirmed := False, selectionPath := S # ps\<rparr>))"
proof -
  let ?d = "handleMouseDown 0 S s"
  have d: "?d = s\<lparr>startPoint := Some S, currentPoint := Some S,
                   isSelecting := True, isConfirmed := False, selectionPath := [S]\<rparr>"
    using assms by (simp add: handleMouseDown_def)
  have "fold handleMouseMove ps ?d =
          ?d\<lparr>currentPoint := Some (last (S # ps)), selectionPath := selectionPath ?d @ ps\<rparr>"
    by (rule moves_freehand) (simp_all add: d assms)
  then show ?thesis
    using assms by (cases s) (simp add: drag_def handleMouseDown_def handleMouseUp_def)
qed

lemma drag_rectangle_result:
  assumes "selectionMode s = ''rectangle''" and "last (S # ps) = (ex, ey)" and "S = (sx, sy)"
  shows "drag S ps s =
     (if \<bar>doubleSub ex sx\<bar> < 5 \<or> \<bar>doubleSub ey sy\<bar> < 5
      then s\<lparr>isSelecting := False, selectionPath := [], rectangleSelection := None,
             startPoint := None, currentPoint := None, isConfirmed := False\<rparr>
      else s\<lparr>startPoint := Some S, currentPoint := Some (ex, ey), isSelecting := False,
             rectangleSelection :=
               Some \<lparr>rect_x = min sx ex, rect_y = min sy ey,
                     rect_width = \<bar>doubleSub ex sx\<bar>,
                     rect_height = \<bar>doubleSub ey sy\<bar>\<rparr>,
             isConfirmed := True\<rparr>)"
  unfolding drag_rectangle [OF assms(1)] assms(2)
  using assms(1,3)
  by (cases s) (simp add: finalizeRectangleSelection_def clearSelection_def Let_def)

text \<open>
  Some differences of doubles.  The first is not the exact difference of the two
  numbers, which is below 5: the points are those of pointer positions 5 and 12 on an
  800 pixel canvas displayed 1120 pixels wide.
\<close>

lemma doubleSub_samples:
  "doubleSub 8.571428571428571 3.5714285714285716 = 5"
  "doubleSub 12 2 = 10"
  "doubleSub 10 0 = 10"
  "doubleSub 4 2 = 2"
  "doubleSub 0 0 = 0"
  by (simp_all add: doubleSub_def toDouble_def exponent_def pow2_def roundHalfEven_def Let_def)

text \<open>
  The drag between those two points, 10 pixels down: the code computes the width 5, so
  the rectangle is stored and confirmed, and the release counts as completing a drag of
  at least 5 by 5 pixels.
\<close>

lemma drag_rounded_width:
  "drag (3.5714285714285716, 0) [(8.571428571428571, 10)] newSelectionManager =
     newSelectionManager
       \<lparr>startPoint := Some (3.5714285714285716, 0),
        currentPoint := Some (8.571428571428571, 10),
        isSelecting := False,
        rectangleSelection :=
          Some \<lparr>rect_x = min 3.5714285714285716 8.571428571428571, rect_y = min 0 10,
                rect_width = 5, rect_height = 10\<rparr>,
        isConfirmed := True\<rparr>"
proof -
  have m: "selectionMode newSelectionManager = ''rectangle''"
    by (simp add: newSelectionManager_def)
  have l: "last ((3.5714285714285716, 0) # [(8.571428571428571, 10)]) =
           (8.571428571428571 :: real, 10 :: real)"
    by (simp only: last.simps list.simps if_False if_True simp_thms)
  have c: "\<not> ((5 :: real) < 5 \<or> (10 :: real) < 5)" by simp
  show ?thesis
    unfolding drag_rectangle_result [OF m l refl] doubleSub_samples
    by (simp only: c if_False abs_numeral)
qed

lemma completesDrag_rounded_width:
  "completesDrag
     (fold dispatch [MouseDown 0 (3.5714285714285716, 0), MouseMove (8.571428571428571, 10)]
        newSelectionManager)
     (MouseUp 0)"
proof -
  let ?s = "fold dispatch
              [MouseDown 0 (3.5714285714285716, 0), MouseMove (8.571428571428571, 10)]
              newSelectionManager"
  have i: "isSelecting ?s"
    by (simp add: handleMouseDown_def handleMouseMove_def newSelectionManager_def)
  have sp: "startPoint ?s = Some (3.5714285714285716, 0)"
    by (simp add: handleMouseDown_def handleMouseMove_def newSelectionManager_def)
  have cp: "currentPoint ?s = Some (8.571428571428571, 10)"
    by (simp add: handleMouseDown_def handleMouseMove_def newSelectionManager_def)
  have c: "(5 :: real) \<le> \<bar>5\<bar> \<and> (5 :: real) \<le> \<bar>10\<bar>" by simp
  show ?thesis
    unfolding completesDrag_def
    by (simp only: selection_event.case i sp cp option.case prod.case
          doubleSub_samples c simp_thms)
qed

text \<open>
  C7.  A drag from \<open>S\<close> whose last point is \<open>E\<close>.  In rectangle mode the release computes
  the axis-aligned box of \<open>S\<close> and \<open>E\<close>, its width and height being the absolute
  differences of the coordinates as the doubles the code computes; when the width or the
  height is below 5 the selection is cleared (no drag in progress, no geometry, not
  confirmed, \<open>hasSelection()\<close> false), otherwise the box is stored and the selection
  confirmed.  In freehand mode a release with fewer than 10 recorded points clears the
  selection in the same way; otherwise the first point is appended to the path and the
  selection confirmed.
\<close>

theorem drag_end:
  "(selectionMode s = ''rectangle'' \<longrightarrow>
      (let E = last (S # ps);
           w = \<bar>doubleSub (fst E) (fst S)\<bar>;
           h = \<bar>doubleSub (snd E) (snd S)\<bar>
       in if w < 5 \<or> h < 5
          then \<not> hasSelection (drag S ps s) \<and>
               drag S ps s =
                 s\<lparr>isSelecting := False, selectionPath := [], rectangleSelection := None,
                   startPoint := None, currentPoint := None, isConfirmed := False\<rparr>
          else rectangleSelection (drag S ps s) =
                 Some \<lparr>rect_x = min (fst S) (fst E), rect_y = min (snd S) (snd E),
                       rect_width = w, rect_height = h\<rparr> \<and>
               isConfirmed (drag S ps s) \<and> hasSelection (drag S ps s) \<and>
               \<not> isSelecting (drag S ps s))) \<and>
   (selectionMode s = ''freehand'' \<longrightarrow>
      (if length (S # ps) < 10
       then \<not> hasSelection (drag S ps s) \<and>
            drag S ps s =
              s\<lparr>isSelecting := False, selectionPath := [], rectangleSelection := None,
                startPoint := None, currentPoint := None, isConfirmed := False\<rparr>
       else selectionPath (drag S ps s) = (S # ps) @ [S] \<and>
            isConfirmed (drag S ps s) \<and> hasSelection (drag S ps s) \<and>
            \<not> isSelecting (drag S ps s)))"
proof (intro conjI impI)
  assume r: "selectionMode s = ''rectangle''"
  obtain sx sy where S: "S = (sx, sy)" by (cases S)
  obtain ex ey where E: "last (S # ps) = (ex, ey)" by (cases "last (S # ps)")
  show "let E = last (S # ps); w = \<bar>doubleSub (fst E) (fst S)\<bar>;
            h = \<bar>doubleSub (snd E) (snd S)\<bar>
       in if w < 5 \<or> h < 5
          then \<not> hasSelection (drag S ps s) \<and>
               drag S ps s =
                 s\<lparr>isSelecting := False, selectionPath := [], rectangleSelection := None,
                   startPoint := None, currentPoint := None, isConfirmed := False\<rparr>
          else rectangleSelection (drag S ps s) =
                 Some \<lparr>rect_x = min (fst S) (fst E), rect_y = min (snd S) (snd E),
                       rect_width = w, rect_height = h\<rparr> \<and>
               isConfirmed (drag S ps s) \<and> hasSelection (drag S ps s) \<and>
               \<not> isSelecting (drag S ps s)"
    using r
    by (simp only: Let_def E drag_rectangle_result [OF r E S])
       (simp add: S hasSelection_def)
next
  assume f: "selectionMode s = ''freehand''"
  show "if length (S # ps) < 10
       then \<not> hasSelection (drag S ps s) \<and>
            drag S ps s =
              s\<lparr>isSelecting := False, selectionPath := [], rectangleSelection := None,
                startPoint := None, currentPoint := None, isConfirmed := False\<rparr>
       else selectionPath (drag S ps s) = (S # ps) @ [S] \<and>
            isConfirmed (drag S ps s) \<and> hasSelection (drag S ps s) \<and>
            \<not> isSelecting (drag S ps s)"
    unfolding drag_freehand [OF f]
    using f by (simp add: finalizeFreehandSelection_def clearSelection_def hasSelection_def Let_def)
qed

theorem drag_end_witness:
  "rectangleSelection (drag (2, 2) [(7, 5), (12, 12)] newSelectionManager) =
     Some \<lparr>rect_x = 2, rect_y = 2, rect_width = 10, rect_height = 10\<rparr> \<and>
   hasSelection (drag (2, 2) [(7, 5), (12, 12)] newSelectionManager) \<and>
   \<not> hasSelection (drag (2, 2) [(12, 4)] newSelectionManager) \<and>
   \<not> hasSelection
       (drag (0, 0) [(1, 1), (2, 2), (3, 3), (4, 4), (5, 5), (6, 6), (7, 7), (8, 8)]
          (setSelectionMode ''freehand'' newSelectionManager)) \<and>
   selectionPath
       (drag (0, 0) [(1, 1), (2, 2), (3, 3), (4, 4), (5, 5), (6, 6), (7, 7), (8, 8), (9, 9)]
          (setSelectionMode ''freehand'' newSelectionManager)) =
     [(0, 0), (1, 1), (2, 2), (3, 3), (4, 4), (5, 5), (6, 6), (7, 7), (8, 8), (9, 9), (0, 0)]"
  using drag_end [of newSelectionManager "(2, 2)" "[(7, 5), (12, 12)]"]
    drag_end [of newSelectionManager "(2, 2)" "[(12, 4)]"]
    drag_end [of "setSelectionMode ''freehand'' newSelectionManager" "(0, 0)"
      "[(1, 1), (2, 2), (3, 3), (4, 4), (5, 5), (6, 6), (7, 7), (8, 8)]"]
    drag_end [of "setSelectionMode ''freehand'' newSelectionManager" "(0, 0)"
      "[(1, 1), (2, 2), (3, 3), (4, 4), (5, 5), (6, 6), (7, 7), (8, 8), (9, 9)]"]
  by (simp add: newSelectionManager_def setSelectionMode_def clearSelection_def Let_def
      hasSelection_def drag_def handleMouseDown_def handleMouseMove_def handleMouseUp_def
      finalizeRectangleSelection_def finalizeFreehandSelection_def doubleSub_samples)

subsection \<open>Full mode\<close>

text \<open>
  C6.  The claim is that no pointer event in full mode makes \<open>hasSelection()\<close> false.
  \<open>handleMouseDown\<close> resets \<open>isConfirmed\<close> in every mode, so pressing the primary
  button right after entering full mode makes \<open>hasSelection()\<close> false, and neither the
  release nor a whole drag restores it; the mode is still full.
\<close>

theorem full_mode_mouse_down:
  "hasSelection (setSelectionMode ''full'' newSelectionManager) \<and>
   \<not> hasSelection (handleMouseDown 0 (3, 4) (setSelectionMode ''full'' newSelectionManager)) \<and>
   \<not> hasSelection (drag (3, 4) [(20, 30)] (setSelectionMode ''full'' newSelectionManager)) \<and>
   selectionMode (drag (3, 4) [(20, 30)] (setSelectionMode ''full'' newSelectionManager)) = ''full''"
  by (simp add: newSelectionManager_def setSelectionMode_def clearSelection_def Let_def
      hasSelection_def handleMouseDown_def handleMouseMove_def handleMouseUp_def drag_def)

subsection \<open>Mode changes\<close>

lemma dispatch_keeps_unselected:
  assumes "selectionMode t = ''rectangle''" and "rectangleSelection t = None"
    and "\<not> completesDrag t ev"
  shows "selectionMode (dispatch ev t) = ''rectangle'' \<and> rectangleSelection (dispatch ev t) = None"
proof (cases ev)
  case (MouseUp b)
  then show ?thesis
    using assms
    by (auto simp: handleMouseUp_def finalizeRectangleSelection_def clearSelection_def
        completesDrag_def Let_def split: option.splits prod.splits)
qed (use assms in \<open>auto simp: handleMouseDown_def handleMouseMove_def handleRightClick_def
      clearSelection_def confirmSelection_def clearSelectionKeepMode_def Let_def\<close>)

lemma run_keeps_unselected:
  "selectionMode t = ''rectangle'' \<Longrightarrow> rectangleSelection t = None \<Longrightarrow>
   noDragCompleted evs t \<Longrightarrow>
   selectionMode (fold dispatch evs t) = ''rectangle'' \<and>
   rectangleSelection (fold dispatch evs t) = None"
proof (induction evs arbitrary: t)
  case Nil
  then show ?case by simp
next
  case (Cons ev evs)
  from Cons.prems have n: "\<not> completesDrag t ev" and r: "noDragCompleted evs (dispatch ev t)"
    by simp_all
  from dispatch_keeps_unselected [OF Cons.prems(1,2) n] Cons.IH [OF _ _ r]
  show ?case by simp
qed

text \<open>
  C8, as stated, fails when the mode was already full and the selection not confirmed
  (the state a processing pass in full mode leaves): \<open>setSelectionMode('full')\<close> sets
  \<open>isConfirmed\<close> only when the mode changes.
\<close>

theorem setSelectionMode_full_counterexample:
  "selectionMode (clearSelectionKeepMode (setSelectionMode ''full'' newSelectionManager)) = ''full'' \<and>
   \<not> hasSelection
       (setSelectionMode ''full''
          (clearSelectionKeepMode (setSelectionMode ''full'' newSelectionManager)))"
  by (simp add: newSelectionManager_def setSelectionMode_def clearSelection_def Let_def
      hasSelection_def clearSelectionKeepMode_def)

text \<open>
  C8, amended.  From a state whose mode is not full, \<open>setSelectionMode('full')\<close> makes
  \<open>hasSelection()\<close> true at once; from a state already in full mode it leaves the
  confirmed flag as it was.  After \<open>setSelectionMode('rectangle')\<close>, from any state,
  \<open>hasSelection()\<close> is false, and it stays false over any sequence of pointer events,
  right-clicks, clears and confirms in which no release completes a drag of at least
  5 by 5 pixels; a drag of at least 5 by 5 pixels makes it true.  The size of a drag is
  measured as the code measures it, by the differences of the coordinates as doubles.
\<close>

theorem setSelectionMode_hasSelection:
  "(selectionMode s \<noteq> ''full'' \<longrightarrow> hasSelection (setSelectionMode ''full'' s)) \<and>
   (selectionMode s = ''full'' \<longrightarrow>
      hasSelection (setSelectionMode ''full'' s) = isConfirmed s) \<and>
   \<not> hasSelection (setSelectionMode ''rectangle'' s) \<and>
   (noDragCompleted evs (setSelectionMode ''rectangle'' s) \<longrightarrow>
      \<not> hasSelection (fold dispatch evs (setSelectionMode ''rectangle'' s))) \<and>
   (5 \<le> \<bar>doubleSub (fst (last (S # ps))) (fst S)\<bar> \<and>
      5 \<le> \<bar>doubleSub (snd (last (S # ps))) (snd S)\<bar> \<longrightarrow>
      hasSelection (drag S ps (setSelectionMode ''rectangle'' s)))"
proof -
  let ?r = "setSelectionMode ''rectangle'' s"
  have r: "selectionMode ?r = ''rectangle''" "rectangleSelection ?r = None"
    by (simp_all add: setSelectionMode_def clearSelection_def Let_def)
  have a: "selectionMode s \<noteq> ''full'' \<longrightarrow> hasSelection (setSelectionMode ''full'' s)"
    by (simp add: setSelectionMode_def clearSelection_def hasSelection_def Let_def)
  have b: "selectionMode s = ''full'' \<longrightarrow>
      hasSelection (setSelectionMode ''full'' s) = isConfirmed s"
    by (simp add: setSelectionMode_def clearSelection_def hasSelection_def Let_def)
  have c: "\<not> hasSelection ?r"
    using r by (simp add: hasSelection_def)
  have d: "noDragCompleted evs ?r \<longrightarrow> \<not> hasSelection (fold dispatch evs ?r)"
    using run_keeps_unselected [OF r] by (simp add: hasSelection_def)
  have e: "5 \<le> \<bar>doubleSub (fst (last (S # ps))) (fst S)\<bar> \<and>
      5 \<le> \<bar>doubleSub (snd (last (S # ps))) (snd S)\<bar> \<longrightarrow>
      hasSelection (drag S ps ?r)"
  proof
    assume big: "5 \<le> \<bar>doubleSub (fst (last (S # ps))) (fst S)\<bar> \<and>
      5 \<le> \<bar>doubleSub (snd (last (S # ps))) (snd S)\<bar>"
    obtain sx sy where S: "S = (sx, sy)" by (cases S)
    obtain ex ey where E: "last (S # ps) = (ex, ey)" by (cases "last (S # ps)")
    have w: "\<not> (\<bar>doubleSub ex sx\<bar> < 5 \<or> \<bar>doubleSub ey sy\<bar> < 5)"
      using big by (metis E S fst_conv snd_conv not_less)
    show "hasSelection (drag S ps ?r)"
      unfolding drag_rectangle_result [OF r(1) E S]
      using w r(1) by (simp add: hasSelection_def)
  qed
  from a b c d e show ?thesis by blast
qed

theorem setSelectionMode_hasSelection_witness:
  "hasSelection (setSelectionMode ''full'' newSelectionManager) \<and>
   hasSelection (setSelectionMode ''full'' (setSelectionMode ''full'' newSelectionManager)) \<and>
   noDragCompleted [MouseDown 0 (2, 2), MouseMove (4, 12), MouseUp 0, RightClick, ConfirmSelection]
     (setSelectionMode ''rectangle'' (setSelectionMode ''full'' newSelectionManager)) \<and>
   \<not> hasSelection
       (fold dispatch
          [MouseDown 0 (2, 2), MouseMove (4, 12), MouseUp 0, RightClick, ConfirmSelection]
          (setSelectionMode ''rectangle'' (setSelectionMode ''full'' newSelectionManager))) \<and>
   hasSelection
     (drag (2, 2) [(12, 12)]
        (setSelectionMode ''rectangle'' (setSelectionMode ''full'' newSelectionManager)))"
  using setSelectionMode_hasSelection [of newSelectionManager "[]" "(0, 0)" "[]"]
    setSelectionMode_hasSelection [of "setSelectionMode ''full'' newSelectionManager"
      "[MouseDown 0 (2, 2), MouseMove (4, 12), MouseUp 0, RightClick, ConfirmSelection]"
      "(2, 2)" "[(12, 12)]"]
  by (simp add: newSelectionManager_def setSelectionMode_def clearSelection_def Let_def
      completesDrag_def handleMouseDown_def handleMouseMove_def handleMouseUp_def
      finalizeRectangleSelection_def handleRightClick_def hasSelection_def confirmSelection_def
      drag_def doubleSub_samples)

subsection \<open>Right-click\<close>

text \<open>
  C9, as stated, fails in full mode: there \<open>clearSelection()\<close> keeps the confirmed flag,
  so \<open>hasSelection()\<close> is true before the right-click and still true after it.
\<close>

theorem handleRightClick_full_counterexample:
  "hasSelection (setSelectionMode ''full'' newSelectionManager) \<and>
   hasSelection (handleRightClick (setSelectionMode ''full'' newSelectionManager))"
  by (simp add: newSelectionManager_def setSelectionMode_def clearSelection_def Let_def
      hasSelection_def handleRightClick_def)

text \<open>
  C9, amended.  In a mode other than full, a right-click with \<open>hasSelection()\<close> true
  clears the selection and \<open>hasSelection()\<close> is false afterwards.  In full mode a
  right-click with \<open>hasSelection()\<close> true also runs \<open>clearSelection()\<close>, which resets
  the drag state and the geometry and keeps the confirmed flag: \<open>hasSelection()\<close> stays
  true.  In every mode a right-click with \<open>hasSelection()\<close> false leaves the state as
  it is.
\<close>

theorem handleRightClick_clears:
  "(hasSelection s \<and> selectionMode s \<noteq> ''full'' \<longrightarrow>
      handleRightClick s = clearSelection False s \<and> \<not> hasSelection (handleRightClick s)) \<and>
   (hasSelection s \<and> selectionMode s = ''full'' \<longrightarrow>
      handleRightClick s = clearSelection False s \<and> hasSelection (handleRightClick s)) \<and>
   (\<not> hasSelection s \<longrightarrow> handleRightClick s = s)"
  by (auto simp: handleRightClick_def hasSelection_def clearSelection_def Let_def
      split: if_splits)

theorem handleRightClick_clears_witness:
  "hasSelection (drag (2, 2) [(12, 12)] newSelectionManager) \<and>
   \<not> hasSelection (handleRightClick (drag (2, 2) [(12, 12)] newSelectionManager)) \<and>
   hasSelection (handleRightClick (setSelectionMode ''full'' newSelectionManager)) \<and>
   \<not> hasSelection (handleMouseDown 0 (2, 2) newSelectionManager) \<and>
   handleRightClick (handleMouseDown 0 (2, 2) newSelectionManager) =
     handleMouseDown 0 (2, 2) newSelectionManager"
  using handleRightClick_clears [of "drag (2, 2) [(12, 12)] newSelectionManager"]
    handleRightClick_clears [of "setSelectionMode ''full'' newSelectionManager"]
    handleRightClick_clears [of "handleMouseDown 0 (2, 2) newSelectionManager"]
  by (simp add: newSelectionManager_def setSelectionMode_def clearSelection_def Let_def
      hasSelection_def handleMouseDown_def handleMouseMove_def handleMouseUp_def drag_def
      finalizeRectangleSelection_def doubleSub_samples)

section \<open>Properties of the application\<close>

text \<open>
  In a mode other than full, \<open>hasSelection()\<close> already includes \<open>isConfirmed\<close>, and
  \<open>isSelectionConfirmed()\<close> is \<open>isConfirmed\<close>: the guard of \<open>processImage\<close>, which
  asks for a selection that is not confirmed, never holds.
\<close>

lemma processImage_never_invalid: "processImage mk now app \<noteq> Some (app', InvalidOperation)"
  by (auto simp: processImage_def hasSelection_def isSelectionConfirmed_def Let_def
      split: option.splits sum.splits prod.splits if_splits)

lemma sample_run:
  "map_option
     (\<lambda>(app', out). (out, data (canvas (imageProcessor app')),
        map actionName (history (historyManager app')),
        map (\<lambda>e. data (heap app' ! imageData e)) (history (historyManager app'))))
     (processImage createSelectionMask now sample_app) =
   Some (Applied, [20, 31, 40, 255, 20, 31, 40, 200],
         [''Initial Image Load'', ''Mosaic Applied''],
         [[10, 20, 30, 255, 30, 41, 50, 200], [20, 31, 40, 255, 20, 31, 40, 200]])"
  by code_simp

text \<open>
  C5.  The claim is that with an image loaded, a mode other than full and no confirmed
  selection, applying the mosaic fails as an invalid operation, without changing the
  raster or pushing to the history.  On the sample session (image loaded, rectangle
  mode, nothing selected) \<open>processImage\<close> passes its guard, takes no mask, applies the
  mosaic to the whole canvas and pushes a "Mosaic Applied" entry; and in no state at
  all does it end as an invalid operation.
\<close>

theorem processImage_without_selection:
  "hasImage (imageProcessor sample_app) \<and>
   selectionMode (selectionManager sample_app) = ''rectangle'' \<and>
   \<not> hasSelection (selectionManager sample_app) \<and>
   map_option
     (\<lambda>(app', out). (out, data (canvas (imageProcessor app')),
        map actionName (history (historyManager app')),
        map (\<lambda>e. data (heap app' ! imageData e)) (history (historyManager app'))))
     (processImage createSelectionMask now sample_app) =
   Some (Applied, [20, 31, 40, 255, 20, 31, 40, 200],
         [''Initial Image Load'', ''Mosaic Applied''],
         [[10, 20, 30, 255, 30, 41, 50, 200], [20, 31, 40, 255, 20, 31, 40, 200]]) \<and>
   processImage createSelectionMask now app \<noteq> Some (app', InvalidOperation)"
proof -
  have "hasImage (imageProcessor sample_app)"
    by (simp add: sample_app_def hasImage_def)
  moreover have "selectionMode (selectionManager sample_app) = ''rectangle''"
    by (simp add: sample_app_def newSelectionManager_def)
  moreover have "\<not> hasSelection (selectionManager sample_app)"
    by (simp add: sample_app_def newSelectionManager_def hasSelection_def)
  ultimately show ?thesis
    using sample_run processImage_never_invalid by blast
qed

end
